theory Spec2Isabelle
  imports Complex_Main "HOL-Library.Char_ord" "HOL-Library.List_Lexorder" "HOL-Library.Log_Nat"
    "HOL-Library.Multiset"
begin

section \<open>The camera manager of the viewer (src/src/camera-manager.ts)\<close>

text \<open>
  The theory embeds the CameraManager of \<^verbatim>\<open>src/src/camera-manager.ts\<close>: the dataset
  preparation of the constructor, the nearest-frame matcher, the dataset navigation, the
  transition blender, the per-frame update with its movement-settle detector, and the
  event handlers.

  JavaScript numbers that carry geometry (positions, angles, fields of view, times) are
  modelled as \<^typ>\<open>real\<close>: finite values, as section 4.1 of the specification assumes.
  Where the source computes with \<^verbatim>\<open>Infinity\<close> or can produce \<^verbatim>\<open>NaN\<close> on finite inputs
  (the initial best score, the sort keys and their difference), the number is a value of
  the type \<open>jsnum\<close> below. Closure variables of the constructor are the fields of the
  record \<open>Manager\<close>; a handler takes the record and returns the updated one.
\<close>

subsection \<open>Numbers with infinities and NaN\<close>

datatype 'a jsnum = Fin 'a | PosInf | NegInf | NaN

text \<open>The operator \<^verbatim>\<open><\<close> of JavaScript: false whenever an operand is NaN.\<close>

fun js_less :: "('a::linorder) jsnum \<Rightarrow> 'a jsnum \<Rightarrow> bool" where
  "js_less (Fin a) (Fin b) = (a < b)"
| "js_less (Fin a) PosInf = True"
| "js_less NegInf (Fin b) = True"
| "js_less NegInf PosInf = True"
| "js_less _ _ = False"

text \<open>
  The operator \<^verbatim>\<open>-\<close> on numbers: \<^verbatim>\<open>Infinity - Infinity\<close> is NaN. On two finite sort keys
  the model takes the exact difference; the double that the source computes can be a
  rounding of it, with the same sign and zero exactly when the keys are equal, which is
  all that the comparator and the sort read of it.
\<close>

fun js_sub :: "int jsnum \<Rightarrow> int jsnum \<Rightarrow> int jsnum" where
  "js_sub (Fin a) (Fin b) = Fin (a - b)"
| "js_sub NaN _ = NaN"
| "js_sub _ NaN = NaN"
| "js_sub PosInf PosInf = NaN"
| "js_sub NegInf NegInf = NaN"
| "js_sub PosInf _ = PosInf"
| "js_sub NegInf _ = NegInf"
| "js_sub (Fin a) PosInf = NegInf"
| "js_sub (Fin a) NegInf = PosInf"

text \<open>
  The double nearest to a non-negative integer, as a Number holds it: integers below
  2^53 are exact; beyond, the 53 leading bits are kept and the rest is rounded to nearest,
  ties to even; a result of 2^1024 or more is \<^verbatim>\<open>Infinity\<close>.
\<close>

definition roundToDouble :: "int \<Rightarrow> int jsnum" where
  "roundToDouble n =
     (if n < 2 ^ 53 then Fin n
      else
        (let e = nat (bitlen n - 53);
             q = n div 2 ^ e;
             r = n mod 2 ^ e;
             half = 2 ^ (e - 1);
             m = (if r > half \<or> (r = half \<and> odd q) then q + 1 else q)
         in if m * 2 ^ e \<ge> 2 ^ 1024 then PosInf else Fin (m * 2 ^ e)))"

subsection \<open>Vectors, poses, bounding boxes\<close>

record Vec3 =
  vx :: real
  vy :: real
  vz :: real

definition distance :: "Vec3 \<Rightarrow> Vec3 \<Rightarrow> real" where
  "distance a b = sqrt ((vx a - vx b) * (vx a - vx b) + (vy a - vy b) * (vy a - vy b)
                        + (vz a - vz b) * (vz a - vz b))"

definition dot :: "Vec3 \<Rightarrow> Vec3 \<Rightarrow> real" where
  "dot a b = vx a * vx b + vy a * vy b + vz a * vz b"

definition length3 :: "Vec3 \<Rightarrow> real" where
  "length3 a = sqrt (vx a * vx a + vy a * vy a + vz a * vz a)"

text \<open>\<^verbatim>\<open>Vec3.normalize\<close> leaves a vector of length zero as it is.\<close>

definition normalize3 :: "Vec3 \<Rightarrow> Vec3" where
  "normalize3 a =
     (let lengthSq = vx a * vx a + vy a * vy a + vz a * vz a in
      if lengthSq > 0 then
        (let invLength = 1 / sqrt lengthSq in
         \<lparr>vx = vx a * invLength, vy = vy a * invLength, vz = vz a * invLength\<rparr>)
      else a)"

definition add3 :: "Vec3 \<Rightarrow> Vec3 \<Rightarrow> Vec3" where
  "add3 a b = \<lparr>vx = vx a + vx b, vy = vy a + vy b, vz = vz a + vz b\<rparr>"

text \<open>
  Modelled from the spec: the class Camera (\<^verbatim>\<open>./cameras/camera\<close>) is not among the
  sources. Sections 3 and 4.1 of the specification describe a pose as a position, an
  orientation and a field of view, copied by value. The manager reads the fields
  \<^verbatim>\<open>position\<close>, \<^verbatim>\<open>angles\<close> and \<^verbatim>\<open>fov\<close> of a camera; \<^verbatim>\<open>copy\<close> is assignment of the whole
  value, and \<^verbatim>\<open>look\<close>, \<^verbatim>\<open>lerp\<close> and \<^verbatim>\<open>calcFocusPoint\<close> are parameters (see \<open>Ext\<close> below).
\<close>

record Camera =
  position :: Vec3
  angles :: Vec3
  fov :: real

record BoundingBox =
  center :: Vec3
  halfExtents :: Vec3

text \<open>\<^verbatim>\<open>BoundingBox.containsPoint\<close>: inside or on the faces of the box.\<close>

definition containsPoint :: "BoundingBox \<Rightarrow> Vec3 \<Rightarrow> bool" where
  "containsPoint b p =
     (\<not> (vx p < vx (center b) - vx (halfExtents b) \<or> vx p > vx (center b) + vx (halfExtents b)
       \<or> vy p < vy (center b) - vy (halfExtents b) \<or> vy p > vy (center b) + vy (halfExtents b)
       \<or> vz p < vz (center b) - vz (halfExtents b) \<or> vz p > vz (center b) + vz (halfExtents b)))"

subsection \<open>Dataset records\<close>

record TransformFrame =
  file_path :: "string option"
  colmap_im_id :: "int option"
  transform_matrix :: "real list list option"
  sort_key :: "int jsnum option"

record PreparedTransformFrame =
  p_frame :: TransformFrame
  p_camera :: Camera
  p_position :: Vec3
  p_forward :: Vec3
  p_fov :: real

text \<open>The payload of the event \<^verbatim>\<open>transformFrame:selected\<close>.\<close>

record SelectedEvent =
  ev_index :: int
  ev_count :: nat
  ev_filePath :: "string option"
  ev_colmapImId :: "int option"

datatype CameraMode = Orbit | Anim | Fly

datatype error = TypeError

subsection \<open>What the manager calls outside the sources\<close>

text \<open>
  The camera primitives, the controllers and the library functions whose code is not
  among the sources are parameters of the model, collected in one record. The type \<open>'c\<close>
  is the private state of the three controllers, \<open>'f\<close> the input snapshot of a frame.
  \<^item> \<open>forwardFromAngles\<close>: the unit vector
    \<^verbatim>\<open>tmpQuat.setFromEulerAngles(angles).transformVector(Vec3.FORWARD, out).normalize()\<close>;
  \<^item> \<open>lookAngles\<close>: the angles that \<^verbatim>\<open>Camera.look(from, to)\<close> stores (it stores \<^verbatim>\<open>from\<close> as
    the position);
  \<^item> \<open>lerp\<close>: the pose that \<^verbatim>\<open>Camera.lerp(a, b, t)\<close> writes; \<open>easeOut\<close> of \<^verbatim>\<open>./core/math\<close>;
  \<^item> \<open>localeCompare\<close>: \<^verbatim>\<open>String.prototype.localeCompare\<close>;
  \<^item> \<open>calcFocusPoint\<close>: the point that \<^verbatim>\<open>Camera.calcFocusPoint\<close> writes;
  \<^item> \<open>controllerUpdate\<close>, \<open>onEnter\<close>, \<open>onExit\<close>, \<open>orbitGoto\<close>: the controllers' methods,
    which read the pose they are given and change the controllers' own state
    (\<open>controllerUpdate\<close> also writes the target pose);
    \<open>cursorValue\<close>, \<open>cursorDuration\<close>, \<open>setCursorValue\<close>: the cursor of the animation
    controller.
\<close>

record ('c, 'f) Ext =
  forwardFromAngles :: "Vec3 \<Rightarrow> Vec3"
  lookAngles :: "Vec3 \<Rightarrow> Vec3 \<Rightarrow> Vec3"
  calcFocusPoint :: "Camera \<Rightarrow> Vec3"
  lerp :: "Camera \<Rightarrow> Camera \<Rightarrow> real \<Rightarrow> Camera"
  easeOut :: "real \<Rightarrow> real"
  localeCompare :: "string \<Rightarrow> string \<Rightarrow> int"
  controllerUpdate :: "CameraMode \<Rightarrow> real \<Rightarrow> 'f \<Rightarrow> Camera \<Rightarrow> 'c \<Rightarrow> Camera \<times> 'c"
  onEnter :: "CameraMode \<Rightarrow> Camera \<Rightarrow> 'c \<Rightarrow> 'c"
  onExit :: "CameraMode \<Rightarrow> Camera \<Rightarrow> 'c \<Rightarrow> 'c"
  orbitGoto :: "Camera \<Rightarrow> 'c \<Rightarrow> 'c"
  cursorValue :: "'c \<Rightarrow> real"
  cursorDuration :: "'c \<Rightarrow> real"
  setCursorValue :: "real \<Rightarrow> 'c \<Rightarrow> 'c"

subsection \<open>The state of the manager\<close>

text \<open>
  \<open>hasAnimController\<close> says that \<^verbatim>\<open>controllers.anim\<close> is not null; \<open>fired\<close> is the list of
  \<^verbatim>\<open>transformFrame:selected\<close> events fired so far, oldest first. \<open>matcherCalls\<close> is not a
  variable of the source: it counts the calls of \<^verbatim>\<open>pickNearestFrameForCurrentView\<close>, so that
  a statement can say when the matcher runs. The fields \<open>cameraMode\<close>,
  \<open>hasAnimation\<close>, \<open>animationPaused\<close>, \<open>animationTime\<close> and \<open>animationDuration\<close> are those of
  the shared \<^verbatim>\<open>state\<close> object.
\<close>

record 'c Manager =
  camera :: Camera
  target :: Camera
  from_pose :: Camera
  fromMode :: CameraMode
  transitionTimer :: real
  previousPosition :: Vec3
  previousForward :: Vec3
  previousFov :: real
  wasMoving :: bool
  settledTime :: real
  transformFrameIndex :: int
  preparedTransformFrames :: "PreparedTransformFrame list"
  bbox :: BoundingBox
  frameCamera :: Camera
  resetCamera :: Camera
  controllers :: 'c
  hasAnimController :: bool
  cameraMode :: CameraMode
  hasAnimation :: bool
  animationPaused :: bool
  animationTime :: real
  animationDuration :: real
  fired :: "SelectedEvent list"
  matcherCalls :: nat

subsection \<open>The nearest-frame matcher\<close>

definition emitSelectedTransformFrame :: "'c Manager \<Rightarrow> 'c Manager" where
  "emitSelectedTransformFrame M =
     (if transformFrameIndex M < 0
         \<or> transformFrameIndex M \<ge> int (length (preparedTransformFrames M))
      then M
      else
        (let selected = p_frame (preparedTransformFrames M ! nat (transformFrameIndex M)) in
         M\<lparr>fired := fired M @
              [\<lparr>ev_index = transformFrameIndex M,
                ev_count = length (preparedTransformFrames M),
                ev_filePath = file_path selected,
                ev_colmapImId = colmap_im_id selected\<rparr>]\<rparr>))"

text \<open>The score of one candidate, as the body of the loop computes it.\<close>

definition frameScore :: "real \<Rightarrow> Vec3 \<Rightarrow> Vec3 \<Rightarrow> real \<Rightarrow> PreparedTransformFrame \<Rightarrow> real" where
  "frameScore sceneScale cameraPosition currentForward cameraFov candidate =
     (let positionDistNorm = distance cameraPosition (p_position candidate) / sceneScale;
          directionDot = max (- 1) (min 1 (dot currentForward (p_forward candidate)));
          directionDiffNorm = arccos directionDot / pi;
          fovDiffNorm = min 1 (\<bar>cameraFov - p_fov candidate\<bar> / 90);
          behindPenalty = (if directionDot < 0 then 0.5 else 0)
      in positionDistNorm * 0.4 + directionDiffNorm * 0.5 + fovDiffNorm * 0.1 + behindPenalty)"

text \<open>
  The loop \<^verbatim>\<open>for (let i = 0; i < preparedTransformFrames.length; i++)\<close>: the list is the
  frames from index \<open>i\<close> on, the pair is \<^verbatim>\<open>(bestIndex, bestScore)\<close>.
\<close>

fun nearestLoop ::
  "(PreparedTransformFrame \<Rightarrow> real) \<Rightarrow> PreparedTransformFrame list \<Rightarrow> nat
     \<Rightarrow> int \<times> real jsnum \<Rightarrow> int \<times> real jsnum" where
  "nearestLoop sc [] i best = best"
| "nearestLoop sc (candidate # rest) i (bestIndex, bestScore) =
     (let score = sc candidate in
      if js_less (Fin score) bestScore
      then nearestLoop sc rest (Suc i) (int i, Fin score)
      else nearestLoop sc rest (Suc i) (bestIndex, bestScore))"

text \<open>The call of \<^verbatim>\<open>console.log\<close> has no effect on the state and is left out.\<close>

definition pickNearestFrameForCurrentView ::
  "('c, 'f) Ext \<Rightarrow> bool \<Rightarrow> 'c Manager \<Rightarrow> int \<times> 'c Manager" where
  "pickNearestFrameForCurrentView E emitSelection M0 =
     (let M = M0\<lparr>matcherCalls := Suc (matcherCalls M0)\<rparr> in
      if length (preparedTransformFrames M) = 0 then (- 1, M)
      else
        (let sceneScale = max (1 / 1000) (length3 (halfExtents (bbox M)) * 2);
             currentForward = forwardFromAngles E (angles (camera M));
             best = nearestLoop
                      (frameScore sceneScale (position (camera M)) currentForward (fov (camera M)))
                      (preparedTransformFrames M) 0 (- 1, PosInf);
             bestIndex = fst best
         in if bestIndex < 0 then (- 1, M)
            else
              (let M1 = M\<lparr>transformFrameIndex := bestIndex\<rparr> in
               (bestIndex, if emitSelection then emitSelectedTransformFrame M1 else M1))))"

text \<open>
  The score as section 4.4 of the specification writes it; the behind penalty reads the
  dot product itself, not its clamped value.
\<close>

definition spec_score :: "real \<Rightarrow> Vec3 \<Rightarrow> Vec3 \<Rightarrow> real \<Rightarrow> PreparedTransformFrame \<Rightarrow> real" where
  "spec_score scene_bounding_radius livePos liveForward liveFOV candidate =
     (let scale = max (1 / 1000) (2 * scene_bounding_radius);
          posTerm = distance livePos (p_position candidate) / scale;
          angle = arccos (max (- 1) (min 1 (dot liveForward (p_forward candidate))));
          dirTerm = angle / pi;
          fovTerm = min 1 (\<bar>liveFOV - p_fov candidate\<bar> / 90);
          behindPenalty = (if dot liveForward (p_forward candidate) < 0 then 1 / 2 else 0)
      in 0.4 * posTerm + 0.5 * dirTerm + 0.1 * fovTerm + behindPenalty)"

text \<open>The score of candidate \<open>j\<close> of the manager's dataset against its displayed pose.\<close>

definition liveScore :: "('c, 'f) Ext \<Rightarrow> 'c Manager \<Rightarrow> nat \<Rightarrow> real" where
  "liveScore E M j =
     spec_score (length3 (halfExtents (bbox M))) (position (camera M))
       (forwardFromAngles E (angles (camera M))) (fov (camera M))
       (preparedTransformFrames M ! j)"

subsection \<open>Sort keys\<close>

text \<open>
  The regular expression \<^verbatim>\<open>/frame_(\d+)(?:\.[^./\\]+)?$/i\<close>. \<open>frameLiteral\<close> lists, for each
  character of the literal \<^verbatim>\<open>frame_\<close>, the characters that match it under the flag
  \<^verbatim>\<open>i\<close>. \<open>matchAt s\<close> matches the whole pattern at the start of \<open>s\<close> and returns the
  captured digits: the digits are taken greedily (giving one back leaves a digit where the
  pattern wants a dot or the end), then either the string ends, or a dot and one or more
  characters other than dot, slash and backslash follow up to the end.
  \<open>regexSearch\<close> tries the start positions from left to right, as
  \<^verbatim>\<open>String.prototype.match\<close> does. A string is a list of 8-bit characters: paths are taken
  to be ASCII.
\<close>

definition isDigit :: "char \<Rightarrow> bool" where
  "isDigit c = (c \<in> set ''0123456789'')"

definition frameLiteral :: "string list" where
  "frameLiteral = [''fF'', ''rR'', ''aA'', ''mM'', ''eE'', ''_'']"

fun stripLiteral :: "string list \<Rightarrow> string \<Rightarrow> string option" where
  "stripLiteral [] s = Some s"
| "stripLiteral (p # ps) [] = None"
| "stripLiteral (p # ps) (c # s) = (if c \<in> set p then stripLiteral ps s else None)"

definition isExtChar :: "char \<Rightarrow> bool" where
  "isExtChar c = (c \<noteq> CHR ''.'' \<and> c \<noteq> CHR ''/'' \<and> c \<noteq> CHR 0x5C)"

definition matchAt :: "string \<Rightarrow> string option" where
  "matchAt s =
     (case stripLiteral frameLiteral s of
        None \<Rightarrow> None
      | Some r \<Rightarrow>
          (let digits = takeWhile isDigit r; rest = dropWhile isDigit r in
           if digits = [] then None
           else (case rest of
                   [] \<Rightarrow> Some digits
                 | c # ext \<Rightarrow>
                     if c = CHR ''.'' \<and> ext \<noteq> [] \<and> list_all isExtChar ext
                     then Some digits else None)))"

fun regexSearch :: "string \<Rightarrow> string option" where
  "regexSearch [] = matchAt []"
| "regexSearch (c # s) =
     (case matchAt (c # s) of Some digits \<Rightarrow> Some digits | None \<Rightarrow> regexSearch s)"

definition digitValue :: "char \<Rightarrow> int" where
  "digitValue c = int (of_char c) - 48"

text \<open>
  \<^verbatim>\<open>Number.parseInt(s, 10)\<close> on a string without sign or leading blanks: NaN when no digit
  leads; otherwise the Number for the value of the leading digits, that is the value
  rounded to a double (the language lets an implementation read digits after the
  twentieth as zeros; the model reads them all, as the engines do that parse with a
  correctly rounding conversion).
\<close>

definition parseInt10 :: "string \<Rightarrow> int jsnum" where
  "parseInt10 s =
     (let digits = takeWhile isDigit s in
      if digits = [] then NaN
      else roundToDouble (foldl (\<lambda>n c. 10 * n + digitValue c) 0 digits))"

definition extractFrameSortKey :: "TransformFrame \<Rightarrow> int jsnum" where
  "extractFrameSortKey fr =
     (let filePath = (case file_path fr of None \<Rightarrow> [] | Some p \<Rightarrow> p) in
      case regexSearch filePath of
        Some digits \<Rightarrow>
          (let parsed = parseInt10 digits in
           if parsed \<noteq> NaN then parsed else PosInf)
      | None \<Rightarrow> PosInf)"

subsection \<open>Sorting and preparing the dataset\<close>

text \<open>
  The comparator passed to \<^verbatim>\<open>sort\<close>. A frame without \<^verbatim>\<open>sort_key\<close> would give
  \<^verbatim>\<open>undefined\<close>, which the subtraction turns into NaN.
\<close>

definition keyOf :: "TransformFrame \<Rightarrow> int jsnum" where
  "keyOf a = (case sort_key a of None \<Rightarrow> NaN | Some k \<Rightarrow> k)"

definition pathOf :: "TransformFrame \<Rightarrow> string" where
  "pathOf a = (case file_path a of None \<Rightarrow> [] | Some p \<Rightarrow> p)"

definition compareFrames :: "('c, 'f) Ext \<Rightarrow> TransformFrame \<Rightarrow> TransformFrame \<Rightarrow> int jsnum" where
  "compareFrames E a b =
     (let byFrameNumber = js_sub (keyOf a) (keyOf b) in
      if byFrameNumber \<noteq> Fin 0 then byFrameNumber
      else Fin (localeCompare E (pathOf a) (pathOf b)))"

text \<open>
  \<^verbatim>\<open>Array.prototype.sort\<close> with a comparator: a result NaN of the comparator counts as
  +0, and the sort is stable. The model is the stable insertion sort: an element moves
  behind another only when the comparator says greater.
\<close>

definition sortCompare :: "('a \<Rightarrow> 'a \<Rightarrow> int jsnum) \<Rightarrow> 'a \<Rightarrow> 'a \<Rightarrow> int jsnum" where
  "sortCompare comparefn a b = (let v = comparefn a b in if v = NaN then Fin 0 else v)"

fun insertSorted :: "('a \<Rightarrow> 'a \<Rightarrow> int jsnum) \<Rightarrow> 'a \<Rightarrow> 'a list \<Rightarrow> 'a list" where
  "insertSorted comparefn a [] = [a]"
| "insertSorted comparefn a (b # bs) =
     (if js_less (Fin 0) (sortCompare comparefn a b) then b # insertSorted comparefn a bs
      else a # b # bs)"

definition arraySort :: "('a \<Rightarrow> 'a \<Rightarrow> int jsnum) \<Rightarrow> 'a list \<Rightarrow> 'a list" where
  "arraySort comparefn as = foldr (insertSorted comparefn) as []"

definition validTransformFrames :: "('c, 'f) Ext \<Rightarrow> TransformFrame list \<Rightarrow> TransformFrame list" where
  "validTransformFrames E transformFrames =
     arraySort (compareFrames E)
       (map (\<lambda>fr. fr\<lparr>sort_key := Some (extractFrameSortKey fr)\<rparr>)
          (filter (\<lambda>fr. transform_matrix fr \<noteq> None) transformFrames))"

text \<open>
  A rotation matrix of the library (\<^verbatim>\<open>Mat4\<close>) is given by what it does to a point and to
  a direction.
\<close>

record Mat4 =
  transformPoint :: "Vec3 \<Rightarrow> Vec3"
  transformVector :: "Vec3 \<Rightarrow> Vec3"

definition frameToCamera ::
  "('c, 'f) Ext \<Rightarrow> TransformFrame \<Rightarrow> real \<Rightarrow> Mat4 option \<Rightarrow> Camera option" where
  "frameToCamera E fr fov0 worldRotation =
     (case transform_matrix fr of
        None \<Rightarrow> None
      | Some m \<Rightarrow>
          if length m < 3 \<or> length (m ! 0) < 4 \<or> length (m ! 1) < 4 \<or> length (m ! 2) < 4
          then None
          else
            (let framePosition0 = \<lparr>vx = m ! 0 ! 3, vy = m ! 1 ! 3, vz = m ! 2 ! 3\<rparr>;
                 frameForward0 = normalize3 \<lparr>vx = - (m ! 0 ! 2), vy = - (m ! 1 ! 2), vz = - (m ! 2 ! 2)\<rparr>;
                 framePosition = (case worldRotation of None \<Rightarrow> framePosition0
                                  | Some r \<Rightarrow> transformPoint r framePosition0);
                 frameForward = (case worldRotation of None \<Rightarrow> frameForward0
                                  | Some r \<Rightarrow> normalize3 (transformVector r frameForward0));
                 frameTarget = add3 framePosition frameForward
             in Some \<lparr>position = framePosition,
                      angles = lookAngles E framePosition frameTarget,
                      fov = fov0\<rparr>))"

text \<open>The loop \<^verbatim>\<open>validTransformFrames.forEach\<close> that fills \<^verbatim>\<open>preparedTransformFrames\<close>.\<close>

fun prepareLoop ::
  "('c, 'f) Ext \<Rightarrow> real \<Rightarrow> Mat4 option \<Rightarrow> TransformFrame list \<Rightarrow> PreparedTransformFrame list" where
  "prepareLoop E transformsFov sceneRotation [] = []"
| "prepareLoop E transformsFov sceneRotation (fr # rest) =
     (case frameToCamera E fr transformsFov sceneRotation of
        None \<Rightarrow> prepareLoop E transformsFov sceneRotation rest
      | Some cam \<Rightarrow>
          \<lparr>p_frame = fr, p_camera = cam, p_position = position cam,
           p_forward = forwardFromAngles E (angles cam), p_fov = fov cam\<rparr>
          # prepareLoop E transformsFov sceneRotation rest)"

definition prepareTransformFrames ::
  "('c, 'f) Ext \<Rightarrow> real \<Rightarrow> Mat4 option \<Rightarrow> TransformFrame list \<Rightarrow> PreparedTransformFrame list" where
  "prepareTransformFrames E transformsFov sceneRotation transformFrames =
     prepareLoop E transformsFov sceneRotation (validTransformFrames E transformFrames)"

subsection \<open>Dataset navigation\<close>

text \<open>
  The shared object \<^verbatim>\<open>state\<close> belongs to the surrounding application: an assignment to
  \<^verbatim>\<open>state.cameraMode\<close> is the write of the field. The notification
  \<^verbatim>\<open>cameraMode:changed\<close> that the application delivers is the handler \<open>cameraModeChanged\<close>
  below, called with the new and the previous mode.
\<close>

definition gotoTransformFrameIndex :: "('c, 'f) Ext \<Rightarrow> int \<Rightarrow> 'c Manager \<Rightarrow> 'c Manager" where
  "gotoTransformFrameIndex E index M =
     (if index < 0 \<or> index \<ge> int (length (preparedTransformFrames M)) then M
      else
        (let M1 = M\<lparr>transformFrameIndex := index\<rparr>;
             selected = preparedTransformFrames M1 ! nat (transformFrameIndex M1);
             M2 = M1\<lparr>cameraMode := Orbit\<rparr>;
             M3 = M2\<lparr>controllers := orbitGoto E (p_camera selected) (controllers M2)\<rparr>
         in emitSelectedTransformFrame M3))"

text \<open>The operator \<^verbatim>\<open>%\<close> on integers with a divisor other than zero: the sign of the dividend.\<close>

definition js_rem :: "int \<Rightarrow> int \<Rightarrow> int" where
  "js_rem a b = sgn a * (\<bar>a\<bar> mod \<bar>b\<bar>)"

definition stepTransformFrame :: "('c, 'f) Ext \<Rightarrow> int \<Rightarrow> 'c Manager \<Rightarrow> 'c Manager" where
  "stepTransformFrame E step M =
     (let count = int (length (preparedTransformFrames M)) in
      if count = 0 then M
      else
        (let (nearestIndex, M1) =
               (if transformFrameIndex M < 0 then pickNearestFrameForCurrentView E True M
                else (0, M))
         in if transformFrameIndex M < 0 \<and> nearestIndex < 0 then M1
            else
              (let M2 = M1\<lparr>transformFrameIndex := js_rem (transformFrameIndex M1 + step + count) count\<rparr>
               in gotoTransformFrameIndex E (transformFrameIndex M2) M2)))"

subsection \<open>Transitions and the per-frame update\<close>

definition transitionSpeed :: real where
  "transitionSpeed = 1"

definition positionDeltaThreshold :: real where
  "positionDeltaThreshold = 1 / 1000"

definition angleDeltaThreshold :: real where
  "angleDeltaThreshold = 0.2 * pi / 180"

definition fovDeltaThreshold :: real where
  "fovDeltaThreshold = 0.01"

definition settleDelaySeconds :: real where
  "settleDelaySeconds = 0.2"

definition startTransition :: "'c Manager \<Rightarrow> 'c Manager" where
  "startTransition M = M\<lparr>from_pose := camera M, transitionTimer := 0\<rparr>"

text \<open>\<^verbatim>\<open>controllers[cameraMode]\<close> is null for the mode \<^verbatim>\<open>anim\<close> without animation controller.\<close>

definition controllerIsNull :: "'c Manager \<Rightarrow> CameraMode \<Rightarrow> bool" where
  "controllerIsNull M mode = (mode = Anim \<and> \<not> hasAnimController M)"

text \<open>Lines 350 to 355: the displayed pose follows the blend, or is the target.\<close>

definition blend :: "('c, 'f) Ext \<Rightarrow> 'c Manager \<Rightarrow> 'c Manager" where
  "blend E M =
     (if transitionTimer M < 1
      then M\<lparr>camera := lerp E (from_pose M) (target M) (easeOut E (transitionTimer M))\<rparr>
      else M\<lparr>camera := target M\<rparr>)"

text \<open>Lines 362 to 367: does the displayed pose differ from the one of the frame before?\<close>

definition movingNow :: "('c, 'f) Ext \<Rightarrow> 'c Manager \<Rightarrow> bool" where
  "movingNow E M =
     (let currentForward = forwardFromAngles E (angles (camera M));
          positionDelta = distance (position (camera M)) (previousPosition M);
          dotv = max (- 1) (min 1 (dot (previousForward M) currentForward));
          angleDelta = arccos dotv;
          fovDelta = \<bar>fov (camera M) - previousFov M\<bar>
      in positionDelta > positionDeltaThreshold \<or> angleDelta > angleDeltaThreshold
         \<or> fovDelta > fovDeltaThreshold)"

text \<open>Lines 369 to 379: the settle timer and the automatic call of the matcher.\<close>

definition settle :: "('c, 'f) Ext \<Rightarrow> bool \<Rightarrow> real \<Rightarrow> 'c Manager \<Rightarrow> 'c Manager" where
  "settle E moving deltaTime M =
     (if moving then M\<lparr>wasMoving := True, settledTime := 0\<rparr>
      else if wasMoving M then
        (let M1 = M\<lparr>settledTime := settledTime M + deltaTime\<rparr> in
         if settledTime M1 \<ge> settleDelaySeconds
         then snd (pickNearestFrameForCurrentView E True (M1\<lparr>wasMoving := False, settledTime := 0\<rparr>))
         else M1)
      else M)"

text \<open>
  \<^verbatim>\<open>this.update\<close>, lines 340 to 360: the timer advances, the active controller writes the
  target, the displayed pose is blended, the animation time is published. A call on a
  null controller throws; the state at the throw comes with the error.
\<close>

definition poseStep ::
  "('c, 'f) Ext \<Rightarrow> real \<Rightarrow> 'f \<Rightarrow> 'c Manager \<Rightarrow> (error \<times> 'c Manager) + 'c Manager" where
  "poseStep E deltaTime inputFrame M =
     (let dt = (if cameraMode M = Anim \<and> animationPaused M then 0 else deltaTime);
          M1 = M\<lparr>transitionTimer := min 1 (transitionTimer M + deltaTime * transitionSpeed)\<rparr>
      in if controllerIsNull M1 (cameraMode M1) then Inl (TypeError, M1)
         else
           (let written = controllerUpdate E (cameraMode M1) dt inputFrame (target M1) (controllers M1);
                M2 = M1\<lparr>target := fst written, controllers := snd written\<rparr>;
                M3 = blend E M2
            in Inr (if cameraMode M3 = Anim
                    then M3\<lparr>animationTime := cursorValue E (controllers M3)\<rparr> else M3)))"

text \<open>\<^verbatim>\<open>this.update\<close> as a whole: lines 362 to 383 follow the pose.\<close>

definition update ::
  "('c, 'f) Ext \<Rightarrow> real \<Rightarrow> 'f \<Rightarrow> 'c Manager \<Rightarrow> (error \<times> 'c Manager) + 'c Manager" where
  "update E deltaTime inputFrame M =
     (case poseStep E deltaTime inputFrame M of
        Inl e \<Rightarrow> Inl e
      | Inr M4 \<Rightarrow>
          (let currentForward = forwardFromAngles E (angles (camera M4));
               M5 = settle E (movingNow E M4) deltaTime M4
           in Inr (M5\<lparr>previousPosition := position (camera M5),
                       previousForward := currentForward,
                       previousFov := fov (camera M5)\<rparr>)))"

text \<open>A run of updates, one per input \<open>(deltaTime, inputFrame)\<close>; it stops at a throw.\<close>

fun updates ::
  "('c, 'f) Ext \<Rightarrow> (real \<times> 'f) list \<Rightarrow> 'c Manager \<Rightarrow> (error \<times> 'c Manager) + 'c Manager" where
  "updates E [] M = Inr M"
| "updates E (i # rest) M =
     (case update E (fst i) (snd i) M of
        Inl e \<Rightarrow> Inl e
      | Inr M1 \<Rightarrow> updates E rest M1)"

text \<open>
  Does the update with this input exceed a movement threshold? And a run of updates in
  which none throws and none exceeds a threshold.
\<close>

definition exceedsThreshold :: "('c, 'f) Ext \<Rightarrow> real \<Rightarrow> 'f \<Rightarrow> 'c Manager \<Rightarrow> bool" where
  "exceedsThreshold E deltaTime inputFrame M =
     (case poseStep E deltaTime inputFrame M of Inl e \<Rightarrow> False | Inr M4 \<Rightarrow> movingNow E M4)"

fun stillRun :: "('c, 'f) Ext \<Rightarrow> (real \<times> 'f) list \<Rightarrow> 'c Manager \<Rightarrow> bool" where
  "stillRun E [] M = True"
| "stillRun E (i # rest) M =
     (case update E (fst i) (snd i) M of
        Inl e \<Rightarrow> False
      | Inr M1 \<Rightarrow> \<not> exceedsThreshold E (fst i) (snd i) M \<and> stillRun E rest M1)"

subsection \<open>Event handlers\<close>

datatype InputEvent =
    Ev_frame | Ev_reset | Ev_playPause | Ev_cancel | Ev_interrupt
  | Ev_prevTransformFrame | Ev_nextTransformFrame
  | Ev_gotoNearestTransformFrame | Ev_gotoCurrentTransformFrame
  | Ev_other

definition inputEvent :: "('c, 'f) Ext \<Rightarrow> InputEvent \<Rightarrow> 'c Manager \<Rightarrow> 'c Manager" where
  "inputEvent E eventName M =
     (case eventName of
        Ev_frame \<Rightarrow>
          startTransition
            (M\<lparr>cameraMode := Orbit, controllers := orbitGoto E (frameCamera M) (controllers M)\<rparr>)
      | Ev_reset \<Rightarrow>
          startTransition
            (M\<lparr>cameraMode := Orbit, controllers := orbitGoto E (resetCamera M) (controllers M)\<rparr>)
      | Ev_playPause \<Rightarrow>
          if hasAnimation M then
            (if cameraMode M = Anim then M\<lparr>animationPaused := \<not> animationPaused M\<rparr>
             else M\<lparr>cameraMode := Anim, animationPaused := False\<rparr>)
          else M
      | Ev_cancel \<Rightarrow> if cameraMode M = Anim then M\<lparr>cameraMode := fromMode M\<rparr> else M
      | Ev_interrupt \<Rightarrow> if cameraMode M = Anim then M\<lparr>cameraMode := fromMode M\<rparr> else M
      | Ev_prevTransformFrame \<Rightarrow> stepTransformFrame E (- 1) M
      | Ev_nextTransformFrame \<Rightarrow> stepTransformFrame E 1 M
      | Ev_gotoNearestTransformFrame \<Rightarrow>
          (let picked = pickNearestFrameForCurrentView E False M in
           if fst picked \<ge> 0
           then gotoTransformFrameIndex E (fst picked) (snd picked)
           else snd picked)
      | Ev_gotoCurrentTransformFrame \<Rightarrow>
          if transformFrameIndex M \<ge> 0
          then gotoTransformFrameIndex E (transformFrameIndex M) M
          else M
      | Ev_other \<Rightarrow> M)"

text \<open>The handler of \<^verbatim>\<open>cameraMode:changed\<close>, with the new mode and the previous one.\<close>

definition cameraModeChanged ::
  "('c, 'f) Ext \<Rightarrow> CameraMode \<Rightarrow> CameraMode \<Rightarrow> 'c Manager \<Rightarrow> (error \<times> 'c Manager) + 'c Manager" where
  "cameraModeChanged E val prev M =
     (let M1 = startTransition M;
          M2 = M1\<lparr>target := camera M1, fromMode := prev\<rparr>
      in if controllerIsNull M2 prev then Inl (TypeError, M2)
         else
           (let M3 = M2\<lparr>controllers := onExit E prev (camera M2) (controllers M2)\<rparr> in
            if controllerIsNull M3 val then Inl (TypeError, M3)
            else Inr (M3\<lparr>controllers := onEnter E val (camera M3) (controllers M3)\<rparr>)))"

text \<open>The handler of \<^verbatim>\<open>scrubAnim\<close>.\<close>

definition scrubAnim :: "('c, 'f) Ext \<Rightarrow> real \<Rightarrow> 'c Manager \<Rightarrow> (error \<times> 'c Manager) + 'c Manager" where
  "scrubAnim E time M =
     (let M1 = M\<lparr>cameraMode := Anim\<rparr> in
      if \<not> hasAnimController M1 then Inl (TypeError, M1)
      else Inr (M1\<lparr>controllers := setCursorValue E time (controllers M1)\<rparr>))"

text \<open>The handlers of \<^verbatim>\<open>pick\<close> and of \<^verbatim>\<open>annotation.activate\<close>.\<close>

definition pick :: "('c, 'f) Ext \<Rightarrow> Vec3 \<Rightarrow> 'c Manager \<Rightarrow> 'c Manager" where
  "pick E pickPosition M =
     (let M1 = M\<lparr>cameraMode := Orbit\<rparr>;
          tmpCamera = (camera M1)\<lparr>position := position (camera M1),
                                  angles := lookAngles E (position (camera M1)) pickPosition\<rparr>
      in startTransition (M1\<lparr>controllers := orbitGoto E tmpCamera (controllers M1)\<rparr>))"

definition annotationActivate ::
  "('c, 'f) Ext \<Rightarrow> Vec3 \<Rightarrow> Vec3 \<Rightarrow> real \<Rightarrow> 'c Manager \<Rightarrow> 'c Manager" where
  "annotationActivate E initialPosition initialTarget initialFov M =
     (let M1 = M\<lparr>cameraMode := Orbit\<rparr>;
          tmpCamera = \<lparr>position = initialPosition,
                       angles = lookAngles E initialPosition initialTarget,
                       fov = initialFov\<rparr>;
          M2 = M1\<lparr>controllers := orbitGoto E tmpCamera (controllers M1)\<rparr>;
          M3 = M2\<lparr>target := (target M2)\<lparr>fov := fov tmpCamera\<rparr>\<rparr>
      in startTransition M3)"

subsection \<open>The constructor\<close>

text \<open>
  The settings the constructor reads: \<^verbatim>\<open>settings.cameras[0].initial\<close>, \<^verbatim>\<open>animTracks\<close> (the
  empty list when absent), \<^verbatim>\<open>startMode\<close> and \<^verbatim>\<open>hasStartPose\<close>. A track is one of the
  settings (type \<open>'t\<close>) or the rotation that \<^verbatim>\<open>createRotateTrack\<close> builds from a position, a
  focus point and a field of view.
\<close>

record 't Settings =
  initial_position :: Vec3
  initial_target :: Vec3
  initial_fov :: real
  animTracks :: "'t list"
  startMode :: string
  hasStartPose :: bool

datatype 't AnimTrack = Authored 't | RotateTrack Vec3 Vec3 real

definition createCamera :: "('c, 'f) Ext \<Rightarrow> Vec3 \<Rightarrow> Vec3 \<Rightarrow> real \<Rightarrow> Camera" where
  "createCamera E pos tgt fov0 = \<lparr>position = pos, angles = lookAngles E pos tgt, fov = fov0\<rparr>"

definition createFrameCamera :: "('c, 'f) Ext \<Rightarrow> BoundingBox \<Rightarrow> real \<Rightarrow> Camera" where
  "createFrameCamera E bb fov0 =
     (let sceneSize = length3 (halfExtents bb);
          dist0 = sceneSize / sin (fov0 / 180 * pi * 0.5);
          n = normalize3 \<lparr>vx = 2, vy = 1, vz = 2\<rparr>
      in createCamera E
           (add3 \<lparr>vx = vx n * dist0, vy = vy n * dist0, vz = vz n * dist0\<rparr> (center bb))
           (center bb) fov0)"

definition getAnimTrack :: "('c, 'f) Ext \<Rightarrow> 't Settings \<Rightarrow> Camera \<Rightarrow> bool \<Rightarrow> 't AnimTrack option" where
  "getAnimTrack E settings initial isObjectExperience =
     (case animTracks settings of
        t # ts \<Rightarrow>
          if startMode settings = ''animTrack'' then Some (Authored t)
          else if isObjectExperience
          then Some (RotateTrack (position initial) (calcFocusPoint E initial) (fov initial))
          else None
      | [] \<Rightarrow>
          if isObjectExperience
          then Some (RotateTrack (position initial) (calcFocusPoint E initial) (fov initial))
          else None)"

definition isObjectExperience :: "('c, 'f) Ext \<Rightarrow> 't Settings \<Rightarrow> BoundingBox \<Rightarrow> bool" where
  "isObjectExperience E settings bb =
     (\<not> containsPoint bb
          (position (createCamera E (initial_position settings) (initial_target settings)
                       (initial_fov settings))))"

definition animTrack :: "('c, 'f) Ext \<Rightarrow> 't Settings \<Rightarrow> BoundingBox \<Rightarrow> 't AnimTrack option" where
  "animTrack E settings bb =
     getAnimTrack E settings
       (if hasStartPose settings
        then createCamera E (initial_position settings) (initial_target settings) (initial_fov settings)
        else createFrameCamera E bb (initial_fov settings))
       (isObjectExperience E settings bb)"

text \<open>
  The constructor: \<open>newControllers\<close> gives the private state of the controllers built for
  the resolved track, \<open>transformFrames\<close>, \<open>transformsFov\<close> and \<open>sceneRotation\<close> are the
  dataset, its resolved field of view and the scene rotation. The constructor does not
  write \<^verbatim>\<open>state.animationPaused\<close> and \<^verbatim>\<open>state.animationTime\<close>; they start as false and 0.
\<close>

definition construct ::
  "('c, 'f) Ext \<Rightarrow> ('t AnimTrack option \<Rightarrow> 'c) \<Rightarrow> 't Settings \<Rightarrow> BoundingBox
     \<Rightarrow> TransformFrame list \<Rightarrow> real \<Rightarrow> Mat4 option \<Rightarrow> 'c Manager" where
  "construct E newControllers settings bb transformFrames transformsFov sceneRotation =
     (let frameCamera0 = createFrameCamera E bb (initial_fov settings);
          resetCamera0 = createCamera E (initial_position settings) (initial_target settings)
                           (initial_fov settings);
          objectExperience = isObjectExperience E settings bb;
          track = animTrack E settings bb;
          controllers0 = newControllers track;
          hasAnim = (track \<noteq> None);
          mode = (if hasAnim then Anim else (if objectExperience then Orbit else Fly))
      in \<lparr>camera = resetCamera0,
          target = resetCamera0,
          from_pose = resetCamera0,
          fromMode = (if objectExperience then Orbit else Fly),
          transitionTimer = 1,
          previousPosition = position resetCamera0,
          previousForward = forwardFromAngles E (angles resetCamera0),
          previousFov = fov resetCamera0,
          wasMoving = False,
          settledTime = 0,
          transformFrameIndex = - 1,
          preparedTransformFrames = prepareTransformFrames E transformsFov sceneRotation transformFrames,
          bbox = bb,
          frameCamera = frameCamera0,
          resetCamera = resetCamera0,
          controllers = onEnter E mode resetCamera0 controllers0,
          hasAnimController = hasAnim,
          cameraMode = mode,
          hasAnimation = hasAnim,
          animationPaused = False,
          animationTime = 0,
          animationDuration = (if hasAnim then cursorDuration E controllers0 else 0),
          fired = [],
          matcherCalls = 0\<rparr>)"

subsection \<open>A concrete environment and concrete datasets\<close>

text \<open>
  An instance of the parameters on which the model can be evaluated: the field \<open>angles\<close> of
  a camera holds its forward direction, \<open>lerp\<close> interpolates linearly, strings compare by
  their characters, the controllers have no state of their own and the active controller
  writes the pose it reads from the input snapshot into the target.
\<close>

definition plainCompare :: "string \<Rightarrow> string \<Rightarrow> int" where
  "plainCompare a b = (if a < b then - 1 else if a = b then 0 else 1)"

definition mix3 :: "Vec3 \<Rightarrow> Vec3 \<Rightarrow> real \<Rightarrow> Vec3" where
  "mix3 a b t = \<lparr>vx = vx a + (vx b - vx a) * t, vy = vy a + (vy b - vy a) * t,
                 vz = vz a + (vz b - vz a) * t\<rparr>"

definition simpleExt :: "(unit, Camera) Ext" where
  "simpleExt =
     \<lparr>forwardFromAngles = (\<lambda>a. a),
      lookAngles = (\<lambda>p t. normalize3 \<lparr>vx = vx t - vx p, vy = vy t - vy p, vz = vz t - vz p\<rparr>),
      calcFocusPoint = (\<lambda>c. add3 (position c) (angles c)),
      lerp = (\<lambda>a b t. \<lparr>position = mix3 (position a) (position b) t,
                         angles = mix3 (angles a) (angles b) t,
                         fov = fov a + (fov b - fov a) * t\<rparr>),
      easeOut = (\<lambda>t. 1 - (1 - t) * (1 - t)),
      localeCompare = plainCompare,
      controllerUpdate = (\<lambda>mode dt inputFrame tgt c. (inputFrame, c)),
      onEnter = (\<lambda>mode cam c. c),
      onExit = (\<lambda>mode cam c. c),
      orbitGoto = (\<lambda>cam c. c),
      cursorValue = (\<lambda>c. 0),
      cursorDuration = (\<lambda>c. 0),
      setCursorValue = (\<lambda>t c. c)\<rparr>"

text \<open>
  A frame with the given path and matrix; the matrix of a camera at the origin that looks
  down the negative z axis; a matrix of two rows.
\<close>

definition frameOf :: "string \<Rightarrow> real list list \<Rightarrow> TransformFrame" where
  "frameOf path m =
     \<lparr>file_path = Some path, colmap_im_id = None, transform_matrix = Some m, sort_key = None\<rparr>"

definition originMatrix :: "real list list" where
  "originMatrix = [[1, 0, 0, 0], [0, 1, 0, 0], [0, 0, 1, 0]]"

definition twoRowMatrix :: "real list list" where
  "twoRowMatrix = [[1, 0, 0, 0], [0, 1, 0, 0]]"

text \<open>
  The manager that the constructor builds for a box of half extent 1 around the origin, a
  start pose at the given point looking at the origin, no authored track, and the given
  dataset. The point \<open>insidePoint\<close> lies in the box, \<open>outsidePoint\<close> does not.
\<close>

definition unitBox :: BoundingBox where
  "unitBox = \<lparr>center = \<lparr>vx = 0, vy = 0, vz = 0\<rparr>, halfExtents = \<lparr>vx = 1, vy = 1, vz = 1\<rparr>\<rparr>"

definition insidePoint :: Vec3 where
  "insidePoint = \<lparr>vx = 0, vy = 0, vz = 1\<rparr>"

definition outsidePoint :: Vec3 where
  "outsidePoint = \<lparr>vx = 0, vy = 0, vz = 5\<rparr>"

definition settingsAt :: "Vec3 \<Rightarrow> unit Settings" where
  "settingsAt p =
     \<lparr>initial_position = p, initial_target = \<lparr>vx = 0, vy = 0, vz = 0\<rparr>, initial_fov = 60,
      animTracks = [], startMode = ''default'', hasStartPose = True\<rparr>"

definition managerAt :: "Vec3 \<Rightarrow> TransformFrame list \<Rightarrow> unit Manager" where
  "managerAt p transformFrames =
     construct simpleExt (\<lambda>track. ()) (settingsAt p) unitBox transformFrames 60 None"

text \<open>Two frames with the same pose, listed against the order of their numbers.\<close>

definition twoFrames :: "TransformFrame list" where
  "twoFrames = [frameOf ''frame_002.png'' originMatrix, frameOf ''frame_001.png'' originMatrix]"

subsection \<open>Notions used in the statements\<close>

text \<open>The event that a selection of index \<open>i\<close> fires.\<close>

definition selectedEvent :: "'c Manager \<Rightarrow> int \<Rightarrow> SelectedEvent" where
  "selectedEvent M i =
     \<lparr>ev_index = i, ev_count = length (preparedTransformFrames M),
      ev_filePath = file_path (p_frame (preparedTransformFrames M ! nat i)),
      ev_colmapImId = colmap_im_id (p_frame (preparedTransformFrames M ! nat i))\<rparr>"

text \<open>
  The selected index is -1 or an index of the prepared dataset; every event fired so far
  carries an index of the dataset and the length of the dataset as its count.
\<close>

definition indexInRange :: "'c Manager \<Rightarrow> bool" where
  "indexInRange M =
     (transformFrameIndex M = - 1
      \<or> (0 \<le> transformFrameIndex M \<and> transformFrameIndex M < int (length (preparedTransformFrames M))))"

definition eventsInRange :: "'c Manager \<Rightarrow> bool" where
  "eventsInRange M =
     list_all (\<lambda>ev. 0 \<le> ev_index ev \<and> ev_index ev < int (length (preparedTransformFrames M))
                    \<and> ev_count ev = length (preparedTransformFrames M)) (fired M)"

definition selectionInvariant :: "'c Manager \<Rightarrow> bool" where
  "selectionInvariant M = (indexInRange M \<and> eventsInRange M)"

text \<open>A matrix supplies at least three rows of at least four columns.\<close>

definition suppliesRows :: "real list list \<Rightarrow> bool" where
  "suppliesRows m = (3 \<le> length (filter (\<lambda>row. 4 \<le> length row) m))"

text \<open>
  Does the still time, accumulated from \<open>s\<close> over the frame times of the list, reach the
  settle delay at one of the frames?
\<close>

fun settledWithin :: "real \<Rightarrow> real list \<Rightarrow> bool" where
  "settledWithin s [] = False"
| "settledWithin s (d # ds) = (settleDelaySeconds \<le> s + d \<or> settledWithin (s + d) ds)"

text \<open>
  Concrete states: a pose that looks down the negative z axis; the state after an update
  that moved the camera of \<open>managerAt insidePoint []\<close> to the origin; three frames of a tenth
  of a second that keep it there; the state half way through a transition from the start
  pose to the origin; a dataset of one frame whose matrix has two rows.
\<close>

definition origin3 :: Vec3 where
  "origin3 = \<lparr>vx = 0, vy = 0, vz = 0\<rparr>"

definition poseAt :: "Vec3 \<Rightarrow> Camera" where
  "poseAt p = \<lparr>position = p, angles = \<lparr>vx = 0, vy = 0, vz = - 1\<rparr>, fov = 60\<rparr>"

definition movedManager :: "unit Manager" where
  "movedManager = (managerAt insidePoint [])\<lparr>camera := poseAt origin3, target := poseAt origin3,
      previousPosition := origin3, wasMoving := True\<rparr>"

definition stillInputs :: "(real \<times> Camera) list" where
  "stillInputs = [(1 / 10, poseAt origin3), (1 / 10, poseAt origin3), (1 / 10, poseAt origin3)]"

definition blendedManager :: "unit Manager" where
  "blendedManager = (managerAt insidePoint [])\<lparr>
      camera := poseAt \<lparr>vx = 0, vy = 0, vz = 1 / 4\<rparr>, target := poseAt origin3,
      transitionTimer := 1 / 2, previousPosition := \<lparr>vx = 0, vy = 0, vz = 1 / 4\<rparr>,
      wasMoving := True\<rparr>"

definition twoRowFrames :: "TransformFrame list" where
  "twoRowFrames = [frameOf ''frame_001.png'' twoRowMatrix]"

text \<open>The value of a string of decimal digits.\<close>

definition decimal :: "string \<Rightarrow> int" where
  "decimal ds = foldl (\<lambda>n c. 10 * n + digitValue c) 0 ds"

text \<open>
  The path ends with a token: the literal \<^verbatim>\<open>frame_\<close> in any case, the digits \<open>ds\<close>, and then
  nothing or one extension (a dot and one or more characters other than dot, slash and
  backslash).
\<close>

definition frameToken :: "string \<Rightarrow> string \<Rightarrow> bool" where
  "frameToken s ds =
     (\<exists>pre lit ext. s = pre @ lit @ ds @ ext
        \<and> list_all2 (\<lambda>p c. c \<in> set p) frameLiteral lit
        \<and> ds \<noteq> [] \<and> list_all isDigit ds
        \<and> (ext = [] \<or> (\<exists>e. ext = CHR ''.'' # e \<and> e \<noteq> [] \<and> list_all isExtChar e)))"

text \<open>
  The sort key as section 4.3 of the specification words it, to compare with the one of
  the source: the file name holds a trailing integer token, an underscore and digits
  immediately before the extension; otherwise the key is +infinity.
\<close>

definition spec_sortKey :: "string \<Rightarrow> int jsnum" where
  "spec_sortKey fileName =
     (let stem = rev (drop 1 (dropWhile (\<lambda>c. c \<noteq> CHR ''.'') (rev fileName)));
          digits = rev (takeWhile isDigit (rev stem));
          before = dropWhile isDigit (rev stem)
      in if digits \<noteq> [] \<and> before \<noteq> [] \<and> hd before = CHR ''_'' then Fin (decimal digits) else PosInf)"

text \<open>
  What the language asks of \<^verbatim>\<open>localeCompare\<close>, a consistent comparator: a string that
  compares greater than another is not also less, and the order is transitive.
\<close>

definition consistentComparator :: "(string \<Rightarrow> string \<Rightarrow> int) \<Rightarrow> bool" where
  "consistentComparator cmp =
     ((\<forall>a b. 0 < cmp a b \<longrightarrow> cmp b a \<le> 0)
      \<and> (\<forall>a b c. cmp a b \<le> 0 \<and> cmp b c \<le> 0 \<longrightarrow> cmp a c \<le> 0))"

text \<open>
  The order of the prepared dataset: the smaller key first, a finite key before +infinity,
  and of two frames with the same finite key the one whose path \<^verbatim>\<open>localeCompare\<close> does not
  put behind. It says nothing about two frames whose keys are both +infinity.
\<close>

definition frameLe :: "('c, 'f) Ext \<Rightarrow> TransformFrame \<Rightarrow> TransformFrame \<Rightarrow> bool" where
  "frameLe E a b =
     (js_less (keyOf a) (keyOf b)
      \<or> (keyOf a = keyOf b \<and> (keyOf a = PosInf \<or> localeCompare E (pathOf a) (pathOf b) \<le> 0)))"

text \<open>A sort key as \<open>extractFrameSortKey\<close> returns it: an integer or +infinity.\<close>

definition goodKey :: "int jsnum \<Rightarrow> bool" where
  "goodKey k = (k = PosInf \<or> (\<exists>n. k = Fin n))"

text \<open>
  The three frames of the example of the specification; a dataset with two frames of the
  same number; a dataset without numbers.
\<close>

definition exampleFrames :: "TransformFrame list" where
  "exampleFrames = [frameOf ''foo.png'' originMatrix, frameOf ''frame_010.png'' originMatrix,
                    frameOf ''frame_002.png'' originMatrix]"

definition tiedFrames :: "TransformFrame list" where
  "tiedFrames = [frameOf ''foo.png'' originMatrix, frameOf ''b/frame_1.png'' originMatrix,
                 frameOf ''a/frame_001.png'' originMatrix]"

definition unnumberedFrames :: "TransformFrame list" where
  "unnumberedFrames = [frameOf ''foo.png'' originMatrix, frameOf ''bar.png'' originMatrix]"

text \<open>Two frames whose numbers, 2^53 and 2^53 + 1, are the same double.\<close>

definition roundedFrames :: "TransformFrame list" where
  "roundedFrames = [frameOf ''b/frame_9007199254740992.png'' originMatrix,
                    frameOf ''a/frame_9007199254740993.png'' originMatrix]"

section \<open>Properties\<close>

text \<open>What the rounding to a double returns.\<close>

lemma roundToDouble_cases: "roundToDouble n = PosInf \<or> (\<exists>k. roundToDouble n = Fin k)"
  by (simp add: roundToDouble_def Let_def)

lemma roundToDouble_exact: "n < 2 ^ 53 \<Longrightarrow> roundToDouble n = Fin n"
  by (simp add: roundToDouble_def)

lemma roundToDouble_not_NaN: "roundToDouble n \<noteq> NaN"
  using roundToDouble_cases [of n] by auto

lemma bitlen_examples: "bitlen 9007199254740992 = 54" "bitlen 9007199254740993 = 54"
  by code_simp+

lemma roundToDouble_examples:
  "roundToDouble 9007199254740992 = Fin 9007199254740992"
  "roundToDouble 9007199254740993 = Fin 9007199254740992"
  by (simp_all add: roundToDouble_def Let_def bitlen_examples)

text \<open>A number of 310 digits is beyond the doubles: its key is +infinity.\<close>

lemma roundToDouble_overflow: "roundToDouble (10 ^ 309) = PosInf"
  by code_simp

text \<open>The equations that evaluate the constructor on a concrete dataset.\<close>

lemmas eval_defs =
  managerAt_def construct_def Let_def prepareTransformFrames_def validTransformFrames_def
  arraySort_def sortCompare_def compareFrames_def keyOf_def pathOf_def frameToCamera_def
  originMatrix_def twoRowMatrix_def extractFrameSortKey_def frameOf_def matchAt_def
  frameLiteral_def isDigit_def isExtChar_def parseInt10_def digitValue_def roundToDouble_exact

text \<open>The equations that evaluate an update on a concrete state.\<close>

lemmas run_defs = update_def poseStep_def blend_def movingNow_def settle_def exceedsThreshold_def
  controllerIsNull_def transitionSpeed_def positionDeltaThreshold_def angleDeltaThreshold_def
  fovDeltaThreshold_def settleDelaySeconds_def simpleExt_def poseAt_def origin3_def
  distance_def dot_def normalize3_def length3_def insidePoint_def settingsAt_def unitBox_def
  containsPoint_def isObjectExperience_def animTrack_def getAnimTrack_def createCamera_def
  pickNearestFrameForCurrentView_def

subsection \<open>The nearest-frame matcher\<close>

lemma frameScore_spec:
  "frameScore (max (1 / 1000) (length3 h * 2)) p f v c = spec_score (length3 h) p f v c"
  by (simp add: frameScore_def spec_score_def Let_def mult.commute min_def max_def)

text \<open>
  The loop, started with a finite best score: either nothing beats it, or the result is
  the first index among those of least score.
\<close>

lemma nearestLoop_Fin:
  "nearestLoop sc xs i (bi, Fin b) = (r, rs) \<Longrightarrow>
     (r = bi \<and> rs = Fin b \<and> (\<forall>j<length xs. b \<le> sc (xs ! j)))
   \<or> (\<exists>k<length xs. r = int (i + k) \<and> rs = Fin (sc (xs ! k)) \<and> sc (xs ! k) < b
        \<and> (\<forall>j<length xs. sc (xs ! k) \<le> sc (xs ! j))
        \<and> (\<forall>j<k. sc (xs ! k) < sc (xs ! j)))"
proof (induction xs arbitrary: i bi b)
  case Nil
  then show ?case by simp
next
  case (Cons x xs)
  show ?case
  proof (cases "sc x < b")
    case True
    with Cons.prems have run: "nearestLoop sc xs (Suc i) (int i, Fin (sc x)) = (r, rs)"
      by simp
    from Cons.IH [OF run] show ?thesis
    proof
      assume keep: "r = int i \<and> rs = Fin (sc x) \<and> (\<forall>j<length xs. sc x \<le> sc (xs ! j))"
      have "\<forall>j<length (x # xs). sc x \<le> sc ((x # xs) ! j)"
        using keep by (auto simp: nth_Cons split: nat.splits)
      with keep True have "0 < length (x # xs) \<and> r = int (i + 0) \<and> rs = Fin (sc ((x # xs) ! 0))
          \<and> sc ((x # xs) ! 0) < b
          \<and> (\<forall>j<length (x # xs). sc ((x # xs) ! 0) \<le> sc ((x # xs) ! j))
          \<and> (\<forall>j<0. sc ((x # xs) ! 0) < sc ((x # xs) ! j))"
        by simp
      then show ?thesis by blast
    next
      assume "\<exists>k<length xs. r = int (Suc i + k) \<and> rs = Fin (sc (xs ! k)) \<and> sc (xs ! k) < sc x
        \<and> (\<forall>j<length xs. sc (xs ! k) \<le> sc (xs ! j))
        \<and> (\<forall>j<k. sc (xs ! k) < sc (xs ! j))"
      then obtain k where k: "k < length xs" "r = int (Suc i + k)" "rs = Fin (sc (xs ! k))"
        "sc (xs ! k) < sc x" "\<forall>j<length xs. sc (xs ! k) \<le> sc (xs ! j)"
        "\<forall>j<k. sc (xs ! k) < sc (xs ! j)"
        by blast
      have a: "\<forall>j<length (x # xs). sc ((x # xs) ! Suc k) \<le> sc ((x # xs) ! j)"
        using k by (auto simp: nth_Cons split: nat.splits)
      have b: "\<forall>j<Suc k. sc ((x # xs) ! Suc k) < sc ((x # xs) ! j)"
        using k by (auto simp: nth_Cons split: nat.splits)
      have "Suc k < length (x # xs) \<and> r = int (i + Suc k) \<and> rs = Fin (sc ((x # xs) ! Suc k))
          \<and> sc ((x # xs) ! Suc k) < b"
        using k True by simp
      with a b show ?thesis by blast
    qed
  next
    case False
    with Cons.prems have run: "nearestLoop sc xs (Suc i) (bi, Fin b) = (r, rs)"
      by simp
    from Cons.IH [OF run] show ?thesis
    proof
      assume keep: "r = bi \<and> rs = Fin b \<and> (\<forall>j<length xs. b \<le> sc (xs ! j))"
      have "\<forall>j<length (x # xs). b \<le> sc ((x # xs) ! j)"
        using keep False by (auto simp: nth_Cons split: nat.splits)
      with keep show ?thesis by blast
    next
      assume "\<exists>k<length xs. r = int (Suc i + k) \<and> rs = Fin (sc (xs ! k)) \<and> sc (xs ! k) < b
        \<and> (\<forall>j<length xs. sc (xs ! k) \<le> sc (xs ! j))
        \<and> (\<forall>j<k. sc (xs ! k) < sc (xs ! j))"
      then obtain k where k: "k < length xs" "r = int (Suc i + k)" "rs = Fin (sc (xs ! k))"
        "sc (xs ! k) < b" "\<forall>j<length xs. sc (xs ! k) \<le> sc (xs ! j)"
        "\<forall>j<k. sc (xs ! k) < sc (xs ! j)"
        by blast
      have a: "\<forall>j<length (x # xs). sc ((x # xs) ! Suc k) \<le> sc ((x # xs) ! j)"
        using k False by (auto simp: nth_Cons split: nat.splits)
      have b: "\<forall>j<Suc k. sc ((x # xs) ! Suc k) < sc ((x # xs) ! j)"
        using k False by (auto simp: nth_Cons split: nat.splits)
      have "Suc k < length (x # xs) \<and> r = int (i + Suc k) \<and> rs = Fin (sc ((x # xs) ! Suc k))
          \<and> sc ((x # xs) ! Suc k) < b"
        using k by simp
      with a b show ?thesis by blast
    qed
  qed
qed

lemma nearestLoop_first_min:
  assumes "xs \<noteq> []"
  shows "\<exists>k<length xs. fst (nearestLoop sc xs 0 (- 1, PosInf)) = int k
        \<and> (\<forall>j<length xs. sc (xs ! k) \<le> sc (xs ! j))
        \<and> (\<forall>j<k. sc (xs ! k) < sc (xs ! j))"
proof -
  from assms obtain x rest where xs: "xs = x # rest" by (cases xs) auto
  obtain r rs where run: "nearestLoop sc rest (Suc 0) (int 0, Fin (sc x)) = (r, rs)"
    by (cases "nearestLoop sc rest (Suc 0) (int 0, Fin (sc x))") auto
  have whole: "nearestLoop sc xs 0 (- 1, PosInf) = (r, rs)"
    using run by (simp add: xs)
  from nearestLoop_Fin [OF run] show ?thesis
  proof
    assume keep: "r = int 0 \<and> rs = Fin (sc x) \<and> (\<forall>j<length rest. sc x \<le> sc (rest ! j))"
    have "\<forall>j<length xs. sc (xs ! 0) \<le> sc (xs ! j)"
      using keep by (auto simp: xs nth_Cons split: nat.splits)
    with keep whole have "0 < length xs \<and> fst (nearestLoop sc xs 0 (- 1, PosInf)) = int 0
        \<and> (\<forall>j<length xs. sc (xs ! 0) \<le> sc (xs ! j)) \<and> (\<forall>j<0. sc (xs ! 0) < sc (xs ! j))"
      by (simp add: xs)
    then show ?thesis by blast
  next
    assume "\<exists>k<length rest. r = int (Suc 0 + k) \<and> rs = Fin (sc (rest ! k)) \<and> sc (rest ! k) < sc x
        \<and> (\<forall>j<length rest. sc (rest ! k) \<le> sc (rest ! j))
        \<and> (\<forall>j<k. sc (rest ! k) < sc (rest ! j))"
    then obtain k where k: "k < length rest" "r = int (Suc 0 + k)"
        "sc (rest ! k) < sc x" "\<forall>j<length rest. sc (rest ! k) \<le> sc (rest ! j)"
        "\<forall>j<k. sc (rest ! k) < sc (rest ! j)"
      by blast
    have a: "\<forall>j<length xs. sc (xs ! Suc k) \<le> sc (xs ! j)"
      using k by (auto simp: xs nth_Cons split: nat.splits)
    have b: "\<forall>j<Suc k. sc (xs ! Suc k) < sc (xs ! j)"
      using k by (auto simp: xs nth_Cons split: nat.splits)
    have "Suc k < length xs \<and> fst (nearestLoop sc xs 0 (- 1, PosInf)) = int (Suc k)"
      using k whole by (simp add: xs)
    with a b show ?thesis by blast
  qed
qed

text \<open>
  Claim C1. For every non-empty prepared dataset and every displayed pose, the matcher
  returns an index \<open>k\<close> of the dataset whose score, computed by the formula of the
  specification (\<open>liveScore\<close>, from \<open>spec_score\<close>), is least among all candidates, and every
  candidate before \<open>k\<close> has a strictly greater score: of the candidates of least score
  the first in dataset order is returned.
\<close>

theorem pickNearest_minimal_first:
  assumes "preparedTransformFrames M \<noteq> []"
  shows "\<exists>k<length (preparedTransformFrames M).
           fst (pickNearestFrameForCurrentView E emitSelection M) = int k
         \<and> (\<forall>j<length (preparedTransformFrames M). liveScore E M k \<le> liveScore E M j)
         \<and> (\<forall>j<k. liveScore E M k < liveScore E M j)"
proof -
  let ?sc = "frameScore (max (1 / 1000) (length3 (halfExtents (bbox M)) * 2))
               (position (camera M)) (forwardFromAngles E (angles (camera M))) (fov (camera M))"
  from nearestLoop_first_min [OF assms, of ?sc]
  obtain k where k: "k < length (preparedTransformFrames M)"
      "fst (nearestLoop ?sc (preparedTransformFrames M) 0 (- 1, PosInf)) = int k"
      "\<forall>j<length (preparedTransformFrames M).
          ?sc (preparedTransformFrames M ! k) \<le> ?sc (preparedTransformFrames M ! j)"
      "\<forall>j<k. ?sc (preparedTransformFrames M ! k) < ?sc (preparedTransformFrames M ! j)"
    by blast
  have ret: "fst (pickNearestFrameForCurrentView E emitSelection M) = int k"
    using assms k(2) by (simp add: pickNearestFrameForCurrentView_def Let_def)
  have sc: "\<And>j. ?sc (preparedTransformFrames M ! j) = liveScore E M j"
    by (simp add: liveScore_def frameScore_spec)
  from k(1) ret k(3) k(4) show ?thesis
    unfolding sc by blast
qed

theorem pickNearest_minimal_first_witness:
  "preparedTransformFrames (managerAt insidePoint twoFrames) \<noteq> []
   \<and> (\<exists>k<length (preparedTransformFrames (managerAt insidePoint twoFrames)).
        fst (pickNearestFrameForCurrentView simpleExt True (managerAt insidePoint twoFrames)) = int k
      \<and> (\<forall>j<length (preparedTransformFrames (managerAt insidePoint twoFrames)).
           liveScore simpleExt (managerAt insidePoint twoFrames) k
           \<le> liveScore simpleExt (managerAt insidePoint twoFrames) j)
      \<and> (\<forall>j<k. liveScore simpleExt (managerAt insidePoint twoFrames) k
           < liveScore simpleExt (managerAt insidePoint twoFrames) j))
   \<and> fst (pickNearestFrameForCurrentView simpleExt True (managerAt insidePoint twoFrames)) = 0"
proof -
  have ne: "preparedTransformFrames (managerAt insidePoint twoFrames) \<noteq> []"
    by (simp add: twoFrames_def eval_defs)
  have first: "fst (pickNearestFrameForCurrentView simpleExt True (managerAt insidePoint twoFrames)) = 0"
    by (simp add: pickNearestFrameForCurrentView_def frameScore_def twoFrames_def eval_defs)
  from ne first pickNearest_minimal_first [OF ne, of simpleExt True] show ?thesis by blast
qed

subsection \<open>What the matcher, the navigation and the settle step change\<close>

lemma emit_shape:
  "\<exists>ev. emitSelectedTransformFrame M = M\<lparr>fired := fired M @ ev\<rparr>"
proof (cases "transformFrameIndex M < 0 \<or> transformFrameIndex M \<ge> int (length (preparedTransformFrames M))")
  case True
  then have "emitSelectedTransformFrame M = M\<lparr>fired := fired M @ []\<rparr>"
    by (simp add: emitSelectedTransformFrame_def)
  then show ?thesis by blast
next
  case False
  then show ?thesis
    by (simp add: emitSelectedTransformFrame_def Let_def) (rule exI, rule refl)
qed

lemma emit_eq:
  "emitSelectedTransformFrame M =
     (if 0 \<le> transformFrameIndex M \<and> transformFrameIndex M < int (length (preparedTransformFrames M))
      then M\<lparr>fired := fired M @ [selectedEvent M (transformFrameIndex M)]\<rparr> else M)"
  by (auto simp add: emitSelectedTransformFrame_def selectedEvent_def Let_def)

lemma pick_shape:
  "\<exists>i ev. snd (pickNearestFrameForCurrentView E e M) =
      M\<lparr>transformFrameIndex := i, fired := fired M @ ev, matcherCalls := Suc (matcherCalls M)\<rparr>"
proof -
  let ?M = "M\<lparr>matcherCalls := Suc (matcherCalls M)\<rparr>"
  let ?best = "fst (nearestLoop
                      (frameScore (max (1 / 1000) (length3 (halfExtents (bbox M)) * 2))
                         (position (camera M)) (forwardFromAngles E (angles (camera M))) (fov (camera M)))
                      (preparedTransformFrames M) 0 (- 1, PosInf))"
  show ?thesis
  proof (cases "length (preparedTransformFrames M) = 0 \<or> ?best < 0")
    case True
    then have "snd (pickNearestFrameForCurrentView E e M) =
        M\<lparr>transformFrameIndex := transformFrameIndex M, fired := fired M @ [], matcherCalls := Suc (matcherCalls M)\<rparr>"
      by (auto simp add: pickNearestFrameForCurrentView_def Let_def)
    then show ?thesis by blast
  next
    case False
    obtain ev where ev: "emitSelectedTransformFrame (?M\<lparr>transformFrameIndex := ?best\<rparr>)
        = (?M\<lparr>transformFrameIndex := ?best\<rparr>)\<lparr>fired := fired (?M\<lparr>transformFrameIndex := ?best\<rparr>) @ ev\<rparr>"
      using emit_shape by blast
    show ?thesis
    proof (cases e)
      case True
      with False ev have "snd (pickNearestFrameForCurrentView E e M) =
        M\<lparr>transformFrameIndex := ?best, fired := fired M @ ev, matcherCalls := Suc (matcherCalls M)\<rparr>"
        by (simp add: pickNearestFrameForCurrentView_def Let_def)
      then show ?thesis by blast
    next
      case e: False
      with False have "snd (pickNearestFrameForCurrentView E e M) =
        M\<lparr>transformFrameIndex := ?best, fired := fired M @ [], matcherCalls := Suc (matcherCalls M)\<rparr>"
        by (simp add: pickNearestFrameForCurrentView_def Let_def)
      then show ?thesis by blast
    qed
  qed
qed

lemma pick_empty:
  "preparedTransformFrames M = [] \<Longrightarrow>
     pickNearestFrameForCurrentView E e M = (- 1, M\<lparr>matcherCalls := Suc (matcherCalls M)\<rparr>)"
  by (simp add: pickNearestFrameForCurrentView_def Let_def)

lemma pick_nonempty:
  assumes "preparedTransformFrames M \<noteq> []"
  shows "\<exists>k. 0 \<le> k \<and> k < int (length (preparedTransformFrames M))
      \<and> pickNearestFrameForCurrentView E e M =
          (k, M\<lparr>transformFrameIndex := k,
                fired := fired M @ (if e then [selectedEvent M k] else []),
                matcherCalls := Suc (matcherCalls M)\<rparr>)"
proof -
  let ?sc = "frameScore (max (1 / 1000) (length3 (halfExtents (bbox M)) * 2))
               (position (camera M)) (forwardFromAngles E (angles (camera M))) (fov (camera M))"
  from nearestLoop_first_min [OF assms, of ?sc]
  obtain k where k: "k < length (preparedTransformFrames M)"
      "fst (nearestLoop ?sc (preparedTransformFrames M) 0 (- 1, PosInf)) = int k"
    by blast
  have "pickNearestFrameForCurrentView E e M =
          (int k, M\<lparr>transformFrameIndex := int k,
                fired := fired M @ (if e then [selectedEvent M (int k)] else []),
                matcherCalls := Suc (matcherCalls M)\<rparr>)"
    using assms k by (simp add: pickNearestFrameForCurrentView_def Let_def emit_eq selectedEvent_def)
  with k(1) show ?thesis by auto
qed

lemma pick_calls:
  "matcherCalls (snd (pickNearestFrameForCurrentView E e M)) = Suc (matcherCalls M)
   \<and> wasMoving (snd (pickNearestFrameForCurrentView E e M)) = wasMoving M
   \<and> settledTime (snd (pickNearestFrameForCurrentView E e M)) = settledTime M"
proof -
  obtain i ev where "snd (pickNearestFrameForCurrentView E e M) =
      M\<lparr>transformFrameIndex := i, fired := fired M @ ev, matcherCalls := Suc (matcherCalls M)\<rparr>"
    using pick_shape by blast
  then show ?thesis by simp
qed

lemma goto_eq:
  "gotoTransformFrameIndex E i M =
     (if 0 \<le> i \<and> i < int (length (preparedTransformFrames M))
      then M\<lparr>transformFrameIndex := i, cameraMode := Orbit,
             controllers := orbitGoto E (p_camera (preparedTransformFrames M ! nat i)) (controllers M),
             fired := fired M @ [selectedEvent M i]\<rparr>
      else M)"
  by (auto simp add: gotoTransformFrameIndex_def Let_def emit_eq selectedEvent_def)

lemma js_rem_nonneg: "0 \<le> a \<Longrightarrow> 0 < b \<Longrightarrow> js_rem a b = a mod b"
  by (cases "a = 0") (simp_all add: js_rem_def)

lemma step_selected:
  assumes "preparedTransformFrames M \<noteq> []" and "0 \<le> transformFrameIndex M"
    and "s = 1 \<or> s = - 1"
  shows "stepTransformFrame E s M =
     gotoTransformFrameIndex E
       ((transformFrameIndex M + s + int (length (preparedTransformFrames M)))
          mod int (length (preparedTransformFrames M)))
       (M\<lparr>transformFrameIndex :=
            (transformFrameIndex M + s + int (length (preparedTransformFrames M)))
              mod int (length (preparedTransformFrames M))\<rparr>)"
proof -
  have n: "0 < int (length (preparedTransformFrames M))" using assms(1) by simp
  then have "1 \<le> int (length (preparedTransformFrames M))" by linarith
  with assms(2,3) have "0 \<le> transformFrameIndex M + s + int (length (preparedTransformFrames M))"
    by (elim disjE) simp_all
  from js_rem_nonneg [OF this n] assms show ?thesis
    by (simp add: stepTransformFrame_def Let_def)
qed

lemma step_unselected:
  assumes "preparedTransformFrames M \<noteq> []" and "transformFrameIndex M < 0"
    and "s = 1 \<or> s = - 1"
  shows "stepTransformFrame E s M =
     stepTransformFrame E s (snd (pickNearestFrameForCurrentView E True M))
     \<and> 0 \<le> transformFrameIndex (snd (pickNearestFrameForCurrentView E True M))"
proof -
  from pick_nonempty [OF assms(1), of E True]
  obtain k where k: "0 \<le> k" "k < int (length (preparedTransformFrames M))"
     "pickNearestFrameForCurrentView E True M =
          (k, M\<lparr>transformFrameIndex := k, fired := fired M @ [selectedEvent M k],
                matcherCalls := Suc (matcherCalls M)\<rparr>)"
    by auto
  from assms k show ?thesis
    by (simp add: stepTransformFrame_def Let_def)
qed

lemma settle_shape:
  "\<exists>i ev w s c. settle E mv dt M =
      M\<lparr>transformFrameIndex := i, fired := fired M @ ev, matcherCalls := c, wasMoving := w, settledTime := s\<rparr>"
proof -
  consider (a) mv | (b) "\<not> mv" "wasMoving M" "settledTime M + dt \<ge> settleDelaySeconds"
    | (c) "\<not> mv" "wasMoving M" "\<not> settledTime M + dt \<ge> settleDelaySeconds" | (d) "\<not> mv" "\<not> wasMoving M"
    by blast
  then show ?thesis
  proof cases
    case a
    then have "settle E mv dt M = M\<lparr>transformFrameIndex := transformFrameIndex M, fired := fired M @ [],
        matcherCalls := matcherCalls M, wasMoving := True, settledTime := 0\<rparr>"
      by (simp add: settle_def)
    then show ?thesis by blast
  next
    case b
    let ?N = "M\<lparr>wasMoving := False, settledTime := 0\<rparr>"
    obtain i ev where "snd (pickNearestFrameForCurrentView E True ?N) =
      ?N\<lparr>transformFrameIndex := i, fired := fired ?N @ ev, matcherCalls := Suc (matcherCalls ?N)\<rparr>"
      using pick_shape by blast
    with b have "settle E mv dt M = M\<lparr>transformFrameIndex := i, fired := fired M @ ev,
        matcherCalls := Suc (matcherCalls M), wasMoving := False, settledTime := 0\<rparr>"
      by (simp add: settle_def Let_def)
    then show ?thesis by blast
  next
    case c
    then have "settle E mv dt M = M\<lparr>transformFrameIndex := transformFrameIndex M, fired := fired M @ [],
        matcherCalls := matcherCalls M, wasMoving := wasMoving M, settledTime := settledTime M + dt\<rparr>"
      by (simp add: settle_def Let_def)
    then show ?thesis by blast
  next
    case d
    then have "settle E mv dt M = M\<lparr>transformFrameIndex := transformFrameIndex M, fired := fired M @ [],
        matcherCalls := matcherCalls M, wasMoving := wasMoving M, settledTime := settledTime M\<rparr>"
      by (simp add: settle_def Let_def)
    then show ?thesis by blast
  qed
qed

lemma settle_cases:
  "settle E mv dt M = N \<Longrightarrow>
     (if mv then matcherCalls N = matcherCalls M \<and> wasMoving N \<and> settledTime N = 0
      else if \<not> wasMoving M then matcherCalls N = matcherCalls M \<and> \<not> wasMoving N
      else if settleDelaySeconds \<le> settledTime M + dt
           then matcherCalls N = Suc (matcherCalls M) \<and> \<not> wasMoving N
           else matcherCalls N = matcherCalls M \<and> wasMoving N \<and> settledTime N = settledTime M + dt)"
  using pick_calls [of E True "M\<lparr>wasMoving := False, settledTime := 0\<rparr>"]
  by (auto simp add: settle_def Let_def)


subsection \<open>The update\<close>

lemma poseStep_Inr:
  assumes "poseStep E dt f M = Inr M4"
  shows "transitionTimer M4 = min 1 (transitionTimer M + dt * transitionSpeed)"
    and "from_pose M4 = from_pose M"
    and "camera M4 = (if transitionTimer M4 < 1
                      then lerp E (from_pose M) (target M4) (easeOut E (transitionTimer M4))
                      else target M4)"
    and "\<not> controllerIsNull M (cameraMode M)"
  using assms
  by (auto simp add: poseStep_def blend_def Let_def controllerIsNull_def split: if_splits)

lemma poseStep_keeps:
  assumes "poseStep E dt f M = Inr M4"
  shows "wasMoving M4 = wasMoving M" and "settledTime M4 = settledTime M"
    and "matcherCalls M4 = matcherCalls M"
  using assms
  by (auto simp add: poseStep_def blend_def Let_def split: if_splits)

lemma update_Inr:
  assumes "update E dt f M = Inr M'"
  shows "\<exists>M4. poseStep E dt f M = Inr M4 \<and> transitionTimer M' = transitionTimer M4
     \<and> from_pose M' = from_pose M4 \<and> camera M' = camera M4 \<and> target M' = target M4"
proof -
  from assms obtain M4 where p: "poseStep E dt f M = Inr M4"
    by (auto simp add: update_def split: sum.splits)
  obtain i ev w s c where sh: "settle E (movingNow E M4) dt M4 =
      M4\<lparr>transformFrameIndex := i, fired := fired M4 @ ev, matcherCalls := c, wasMoving := w, settledTime := s\<rparr>"
    using settle_shape by blast
  from assms p sh have "transitionTimer M' = transitionTimer M4
     \<and> from_pose M' = from_pose M4 \<and> camera M' = camera M4 \<and> target M' = target M4"
    by (auto simp add: update_def Let_def)
  with p show ?thesis by blast
qed

lemma update_cases:
  assumes "update E dt f M = Inr N"
  shows "if exceedsThreshold E dt f M then matcherCalls N = matcherCalls M \<and> wasMoving N \<and> settledTime N = 0
      else if \<not> wasMoving M then matcherCalls N = matcherCalls M \<and> \<not> wasMoving N
      else if settleDelaySeconds \<le> settledTime M + dt
           then matcherCalls N = Suc (matcherCalls M) \<and> \<not> wasMoving N
           else matcherCalls N = matcherCalls M \<and> wasMoving N \<and> settledTime N = settledTime M + dt"
proof -
  from assms obtain M4 where p: "poseStep E dt f M = Inr M4"
    by (auto simp add: update_def split: sum.splits)
  let ?S = "settle E (movingNow E M4) dt M4"
  have N: "matcherCalls N = matcherCalls ?S \<and> wasMoving N = wasMoving ?S \<and> settledTime N = settledTime ?S"
    using assms p by (auto simp add: update_def Let_def)
  have ex: "exceedsThreshold E dt f M = movingNow E M4"
    using p by (simp add: exceedsThreshold_def)
  from settle_cases [OF refl, where E = E and mv = "movingNow E M4" and dt = dt and M = M4] N ex poseStep_keeps [OF p]
  show ?thesis by (simp split: if_splits)
qed

lemma update_total:
  "\<not> controllerIsNull M (cameraMode M) \<Longrightarrow> \<exists>M'. update E dt f M = Inr M'"
  by (simp add: update_def poseStep_def Let_def controllerIsNull_def)

lemma first_update:
  "update simpleExt (1 / 10) (poseAt origin3) (managerAt insidePoint []) = Inr movedManager"
  by (simp add: movedManager_def eval_defs run_defs)

lemma first_moves:
  "exceedsThreshold simpleExt (1 / 10) (poseAt origin3) (managerAt insidePoint [])"
  by (simp add: eval_defs run_defs)

lemma still: "stillRun simpleExt stillInputs movedManager"
  by (simp add: stillInputs_def movedManager_def eval_defs run_defs)

lemma sqrt_9_16: "sqrt (9 / 16) = 3 / 4"
  by (rule real_sqrt_unique) (simp_all add: power2_eq_square)

lemma blended_update:
  "update simpleExt (1 / 2) (poseAt origin3) (startTransition (managerAt insidePoint []))
     = Inr blendedManager"
  by (simp add: blendedManager_def startTransition_def mix3_def sqrt_9_16 eval_defs run_defs)


text \<open>
  Claim C3. When an update leaves the transition timer at 1, the displayed pose is the
  target pose itself, and applying the blend of lines 350 to 355 once more changes
  nothing.
\<close>

theorem update_done_exact:
  assumes "update E dt f M = Inr M'" and "transitionTimer M' \<ge> 1"
  shows "transitionTimer M' = 1 \<and> camera M' = target M' \<and> blend E M' = M'"
proof -
  from update_Inr [OF assms(1)] obtain M4 where m4: "poseStep E dt f M = Inr M4"
      "transitionTimer M' = transitionTimer M4" "camera M' = camera M4" "target M' = target M4"
    by blast
  from poseStep_Inr(1) [OF m4(1)] assms(2) m4(2) have one: "transitionTimer M' = 1"
    by simp
  from poseStep_Inr(3) [OF m4(1)] assms(2) m4 have eq: "camera M' = target M'"
    by simp
  with assms(2) have "blend E M' = M'"
    by (simp add: blend_def)
  with one eq show ?thesis by simp
qed

theorem update_done_exact_witness:
  "update simpleExt (1 / 10) (poseAt origin3) (managerAt insidePoint []) = Inr movedManager
   \<and> 1 \<le> transitionTimer movedManager
   \<and> transitionTimer movedManager = 1
   \<and> camera movedManager = target movedManager
   \<and> blend simpleExt movedManager = movedManager"
proof -
  have t: "1 \<le> transitionTimer movedManager"
    by (simp add: movedManager_def eval_defs)
  from first_update t update_done_exact [OF first_update t] show ?thesis by simp
qed


text \<open>
  Claim C8. When an update leaves a transition in flight (timer below 1), the displayed
  pose is the blend of the old \<open>from\<close> pose and the target; a transition requested then
  (by \<^verbatim>\<open>startTransition\<close> itself and by each handler that calls it: frame, reset, pick,
  annotation.activate, cameraMode:changed) takes this displayed pose as its new \<open>from\<close>
  pose and sets the timer to 0.
\<close>

lemma requests_restart:
  "from_pose (inputEvent E Ev_frame M) = camera M \<and> transitionTimer (inputEvent E Ev_frame M) = 0"
  "from_pose (inputEvent E Ev_reset M) = camera M \<and> transitionTimer (inputEvent E Ev_reset M) = 0"
  "from_pose (pick E p M) = camera M \<and> transitionTimer (pick E p M) = 0"
  "from_pose (annotationActivate E ip it iv M) = camera M
     \<and> transitionTimer (annotationActivate E ip it iv M) = 0"
  "case cameraModeChanged E val prev M of
     Inl err \<Rightarrow> from_pose (snd err) = camera M \<and> transitionTimer (snd err) = 0
   | Inr N \<Rightarrow> from_pose N = camera M \<and> transitionTimer N = 0"
  by (simp_all add: inputEvent_def pick_def annotationActivate_def cameraModeChanged_def
        startTransition_def Let_def)

theorem midflight_restart:
  assumes "update E dt f M = Inr M'" and "transitionTimer M' < 1"
  shows "camera M' = lerp E (from_pose M) (target M') (easeOut E (transitionTimer M'))
       \<and> from_pose (startTransition M') = camera M'
       \<and> transitionTimer (startTransition M') = 0
       \<and> from_pose (inputEvent E Ev_frame M') = camera M'
       \<and> transitionTimer (inputEvent E Ev_frame M') = 0
       \<and> from_pose (inputEvent E Ev_reset M') = camera M'
       \<and> transitionTimer (inputEvent E Ev_reset M') = 0
       \<and> from_pose (pick E p M') = camera M' \<and> transitionTimer (pick E p M') = 0
       \<and> from_pose (annotationActivate E ip it iv M') = camera M'
       \<and> transitionTimer (annotationActivate E ip it iv M') = 0
       \<and> (case cameraModeChanged E val prev M' of
             Inl err \<Rightarrow> from_pose (snd err) = camera M' \<and> transitionTimer (snd err) = 0
           | Inr N \<Rightarrow> from_pose N = camera M' \<and> transitionTimer N = 0)"
proof -
  from update_Inr [OF assms(1)] obtain M4 where m4: "poseStep E dt f M = Inr M4"
      "transitionTimer M' = transitionTimer M4" "camera M' = camera M4" "target M' = target M4"
    by blast
  from poseStep_Inr(3) [OF m4(1)] assms(2) m4
  have "camera M' = lerp E (from_pose M) (target M') (easeOut E (transitionTimer M'))"
    by simp
  with requests_restart(1,2) [where E = E and M = M']
    requests_restart(3) [where E = E and p = p and M = M']
    requests_restart(4) [where E = E and ip = ip and it = it and iv = iv and M = M']
    requests_restart(5) [where E = E and val = val and prev = prev and M = M']
  show ?thesis by (simp add: startTransition_def)
qed

theorem midflight_restart_witness:
  "update simpleExt (1 / 2) (poseAt origin3) (startTransition (managerAt insidePoint []))
     = Inr blendedManager
   \<and> transitionTimer blendedManager < 1
   \<and> from_pose (startTransition blendedManager) = camera blendedManager
   \<and> camera blendedManager
       = lerp simpleExt (from_pose (startTransition (managerAt insidePoint [])))
           (target blendedManager) (easeOut simpleExt (transitionTimer blendedManager))
   \<and> transitionTimer (startTransition blendedManager) = 0
   \<and> position (camera blendedManager) = \<lparr>vx = 0, vy = 0, vz = 1 / 4\<rparr>
   \<and> position (from_pose (startTransition (managerAt insidePoint []))) = \<lparr>vx = 0, vy = 0, vz = 1\<rparr>"
proof -
  have t: "transitionTimer blendedManager < 1"
    by (simp add: blendedManager_def)
  have p: "position (camera blendedManager) = \<lparr>vx = 0, vy = 0, vz = 1 / 4\<rparr>"
    by (simp add: blendedManager_def poseAt_def)
  have q: "position (from_pose (startTransition (managerAt insidePoint []))) = \<lparr>vx = 0, vy = 0, vz = 1\<rparr>"
    by (simp add: startTransition_def eval_defs run_defs)
  from blended_update t p q
    midflight_restart [OF blended_update t, where p = origin3 and ip = origin3 and it = origin3
       and iv = 60 and val = Orbit and prev = Fly]
  show ?thesis by simp
qed


subsection \<open>The movement-settle detector\<close>

lemma run_idle:
  "\<not> wasMoving M \<Longrightarrow> stillRun E inputs M \<Longrightarrow>
     \<exists>N. updates E inputs M = Inr N \<and> matcherCalls N = matcherCalls M \<and> \<not> wasMoving N"
proof (induction inputs arbitrary: M)
  case Nil
  then show ?case by simp
next
  case (Cons i rest)
  from Cons.prems(2) obtain M1 where u: "update E (fst i) (snd i) M = Inr M1"
      and ne: "\<not> exceedsThreshold E (fst i) (snd i) M" and r: "stillRun E rest M1"
    by (auto split: sum.splits)
  from update_cases [OF u] ne Cons.prems(1)
  have s: "matcherCalls M1 = matcherCalls M" "\<not> wasMoving M1" by simp_all
  from Cons.IH [OF s(2) r] u s(1) show ?case by auto
qed

lemma run_moving:
  "wasMoving M \<Longrightarrow> stillRun E inputs M \<Longrightarrow>
     \<exists>N. updates E inputs M = Inr N
        \<and> (if settledWithin (settledTime M) (map fst inputs)
           then matcherCalls N = Suc (matcherCalls M) \<and> \<not> wasMoving N
           else matcherCalls N = matcherCalls M \<and> wasMoving N
                \<and> settledTime N = settledTime M + sum_list (map fst inputs))"
proof (induction inputs arbitrary: M)
  case Nil
  then show ?case by simp
next
  case (Cons i rest)
  from Cons.prems(2) obtain M1 where u: "update E (fst i) (snd i) M = Inr M1"
      and ne: "\<not> exceedsThreshold E (fst i) (snd i) M" and r: "stillRun E rest M1"
    by (auto split: sum.splits)
  show ?case
  proof (cases "settleDelaySeconds \<le> settledTime M + fst i")
    case True
    with update_cases [OF u] ne Cons.prems(1)
    have s: "matcherCalls M1 = Suc (matcherCalls M)" "\<not> wasMoving M1" by simp_all
    from run_idle [OF s(2) r] u s(1) True show ?thesis by auto
  next
    case False
    with update_cases [OF u] ne Cons.prems(1)
    have s: "matcherCalls M1 = matcherCalls M" "wasMoving M1" "settledTime M1 = settledTime M + fst i"
      by simp_all
    from Cons.IH [OF s(2) r] u s(1) s(3) False show ?thesis
      by (auto simp add: add.assoc)
  qed
qed

lemma stillRun_take: "stillRun E inputs M \<Longrightarrow> stillRun E (take k inputs) M"
proof (induction inputs arbitrary: M k)
  case Nil
  then show ?case by simp
next
  case (Cons i rest)
  then show ?case by (cases k) (auto split: sum.splits)
qed


text \<open>
  Claim C4. An update that exceeds a movement threshold does not call the matcher. In
  every run of updates after it in which no threshold is exceeded, the matcher has been
  called, after the first \<open>k\<close> updates of the run, once if the accumulated still time has
  reached the settle delay of 0.2 seconds at one of them, and not at all otherwise: the one
  call happens at the first update at which the still time reaches the delay.
\<close>

theorem settle_debounce:
  assumes "update E dt0 f0 M = Inr M1" and "exceedsThreshold E dt0 f0 M"
    and "stillRun E inputs M1" and "k \<le> length inputs"
  shows "matcherCalls M1 = matcherCalls M
       \<and> (\<exists>N. updates E (take k inputs) M1 = Inr N
            \<and> matcherCalls N = matcherCalls M
                 + (if settledWithin 0 (map fst (take k inputs)) then 1 else 0))"
proof -
  from update_cases [OF assms(1)] assms(2)
  have s: "matcherCalls M1 = matcherCalls M" "wasMoving M1" "settledTime M1 = 0" by simp_all
  from run_moving [OF s(2) stillRun_take [OF assms(3), of k]] s
  show ?thesis by (auto split: if_splits)
qed

theorem settle_debounce_witness:
  "update simpleExt (1 / 10) (poseAt origin3) (managerAt insidePoint []) = Inr movedManager
   \<and> exceedsThreshold simpleExt (1 / 10) (poseAt origin3) (managerAt insidePoint [])
   \<and> stillRun simpleExt stillInputs movedManager
   \<and> 1 \<le> length stillInputs \<and> 2 \<le> length stillInputs
   \<and> matcherCalls movedManager = matcherCalls (managerAt insidePoint [])
   \<and> (\<exists>N. updates simpleExt (take 1 stillInputs) movedManager = Inr N
          \<and> matcherCalls N = matcherCalls (managerAt insidePoint []))
   \<and> (\<exists>N. updates simpleExt (take 2 stillInputs) movedManager = Inr N
          \<and> matcherCalls N = matcherCalls (managerAt insidePoint []) + 1)
   \<and> (\<exists>N. updates simpleExt (take 3 stillInputs) movedManager = Inr N
          \<and> matcherCalls N = matcherCalls (managerAt insidePoint []) + 1)"
proof -
  have l: "1 \<le> length stillInputs" "2 \<le> length stillInputs" "3 \<le> length stillInputs"
    by (simp_all add: stillInputs_def)
  have s1: "\<not> settledWithin 0 (map fst (take 1 stillInputs))"
    by (simp add: stillInputs_def settleDelaySeconds_def)
  have s2: "settledWithin 0 (map fst (take 2 stillInputs))"
    by (simp add: stillInputs_def settleDelaySeconds_def numeral_2_eq_2)
  have s3: "settledWithin 0 (map fst (take 3 stillInputs))"
    by (simp add: stillInputs_def settleDelaySeconds_def numeral_3_eq_3)
  from first_update first_moves still l s1 s2 s3
    settle_debounce [OF first_update first_moves still l(1)]
    settle_debounce [OF first_update first_moves still l(2)]
    settle_debounce [OF first_update first_moves still l(3)]
  show ?thesis by simp
qed


subsection \<open>Without animation track\<close>

lemma isObjectExperience_eq:
  "isObjectExperience E settings bb = (\<not> containsPoint bb (initial_position settings))"
  by (simp add: isObjectExperience_def createCamera_def)

lemma animTrack_resolved:
  "(animTrack E settings bb \<noteq> None) =
     ((animTracks settings \<noteq> [] \<and> startMode settings = ''animTrack'')
      \<or> \<not> containsPoint bb (initial_position settings))"
  by (auto simp add: animTrack_def getAnimTrack_def isObjectExperience_eq split: list.splits)

lemma no_track_inside:
  "\<not> hasAnimation (managerAt insidePoint frames)" "\<not> hasAnimController (managerAt insidePoint frames)"
  "cameraMode (managerAt insidePoint frames) = Fly"
  by (simp_all add: managerAt_def construct_def Let_def isObjectExperience_eq animTrack_def
        getAnimTrack_def settingsAt_def containsPoint_def unitBox_def insidePoint_def)


text \<open>
  The play/pause toggle tests the animation flag: without animation it changes nothing.
  The handlers of a scrub request and of a mode change have no such test: without
  animation controller they reach a call on the null controller.
\<close>

lemma playPause_guarded:
  "\<not> hasAnimation M \<Longrightarrow> inputEvent E Ev_playPause M = M"
  by (simp add: inputEvent_def)

lemma unguarded_handlers:
  assumes "\<not> hasAnimController M"
  shows "scrubAnim E t M = Inl (TypeError, M\<lparr>cameraMode := Anim\<rparr>)"
    and "\<exists>M1. cameraModeChanged E Anim prev M = Inl (TypeError, M1) \<and> cameraMode M1 = cameraMode M"
  using assms
  by (simp_all add: scrubAnim_def cameraModeChanged_def controllerIsNull_def Let_def
        startTransition_def)

text \<open>
  Claim C5. The claim asks that, when no animation track was resolved, every request for
  the mode \<open>anim\<close> (play/pause, scrub, mode change) be ignored without an error and leave
  the camera mode unchanged. The source does so for the play/pause toggle only. On the
  state that the constructor builds without track (start pose inside the box, no authored
  track), the play/pause toggle changes nothing, but a scrub request writes the mode
  \<open>anim\<close> and throws a TypeError on the absent controller, and the handler of a mode
  change to \<open>anim\<close> throws a TypeError as well.
\<close>

theorem scrub_without_track_throws:
  "\<not> hasAnimController (managerAt insidePoint []) \<and> \<not> hasAnimation (managerAt insidePoint [])
   \<and> cameraMode (managerAt insidePoint []) = Fly
   \<and> inputEvent simpleExt Ev_playPause (managerAt insidePoint []) = managerAt insidePoint []
   \<and> scrubAnim simpleExt 0 (managerAt insidePoint [])
       = Inl (TypeError, (managerAt insidePoint [])\<lparr>cameraMode := Anim\<rparr>)
   \<and> (\<exists>M1. cameraModeChanged simpleExt Anim Fly (managerAt insidePoint []) = Inl (TypeError, M1)
          \<and> cameraMode M1 = Fly)"
proof -
  note n = no_track_inside [of "[]"]
  from n playPause_guarded [OF n(1), of simpleExt]
    unguarded_handlers(1) [OF n(2), of simpleExt 0]
    unguarded_handlers(2) [OF n(2), of simpleExt Fly]
  show ?thesis by simp
qed


subsection \<open>The initial mode\<close>

text \<open>
  Claim C7. The constructor sets the mode to \<open>anim\<close> if an animation track was resolved,
  else to \<open>orbit\<close> if the start position lies outside the bounding box, else to \<open>fly\<close>; the
  animation flag says whether a track was resolved.
\<close>

theorem initial_mode:
  "cameraMode (construct E nc settings bb frames v rot) =
     (if animTrack E settings bb \<noteq> None then Anim
      else if \<not> containsPoint bb (initial_position settings) then Orbit
      else Fly)
   \<and> hasAnimation (construct E nc settings bb frames v rot) = (animTrack E settings bb \<noteq> None)
   \<and> hasAnimController (construct E nc settings bb frames v rot) = (animTrack E settings bb \<noteq> None)"
  by (simp add: construct_def Let_def isObjectExperience_eq)

theorem initial_mode_witness:
  "cameraMode (managerAt insidePoint []) = Fly \<and> cameraMode (managerAt outsidePoint []) = Anim
   \<and> animTrack simpleExt (settingsAt insidePoint) unitBox = None
   \<and> containsPoint unitBox insidePoint
   \<and> animTrack simpleExt (settingsAt outsidePoint) unitBox \<noteq> None"
proof -
  have a: "animTrack simpleExt (settingsAt insidePoint) unitBox = None"
    by (simp add: animTrack_def getAnimTrack_def isObjectExperience_eq settingsAt_def
          containsPoint_def unitBox_def insidePoint_def)
  have b: "animTrack simpleExt (settingsAt outsidePoint) unitBox \<noteq> None"
    by (simp add: animTrack_def getAnimTrack_def isObjectExperience_eq settingsAt_def
          containsPoint_def unitBox_def outsidePoint_def)
  have c: "containsPoint unitBox insidePoint"
    by (simp add: containsPoint_def unitBox_def insidePoint_def)
  from a b c
    initial_mode [of simpleExt "\<lambda>track. ()" "settingsAt insidePoint" unitBox "[]" 60 None]
    initial_mode [of simpleExt "\<lambda>track. ()" "settingsAt outsidePoint" unitBox "[]" 60 None]
  show ?thesis by (simp add: managerAt_def settingsAt_def)
qed


text \<open>
  A start position outside the box always resolves a track (the rotation track), so the
  second branch is never taken at startup.
\<close>

lemma initial_mode_not_orbit:
  "cameraMode (construct E nc settings bb frames v rot) \<noteq> Orbit"
  using animTrack_resolved [of E settings bb]
  by (auto simp add: construct_def Let_def isObjectExperience_eq)


subsection \<open>Malformed matrices\<close>

lemma first_rows_supply:
  assumes "3 \<le> length m" "4 \<le> length (m ! 0)" "4 \<le> length (m ! 1)" "4 \<le> length (m ! 2)"
  shows "suppliesRows m"
proof -
  from assms(1) obtain r0 r1 r2 rest where m: "m = r0 # r1 # r2 # rest"
    by (cases m; cases "tl m"; cases "tl (tl m)") auto
  with assms show ?thesis by (simp add: suppliesRows_def)
qed

lemma frameToCamera_Some:
  assumes "frameToCamera E fr v rot = Some c"
  shows "\<exists>m. transform_matrix fr = Some m \<and> suppliesRows m"
proof -
  from assms obtain m where m: "transform_matrix fr = Some m"
    by (cases "transform_matrix fr") (auto simp add: frameToCamera_def)
  with assms have "3 \<le> length m \<and> 4 \<le> length (m ! 0) \<and> 4 \<le> length (m ! 1) \<and> 4 \<le> length (m ! 2)"
    by (auto simp add: frameToCamera_def split: if_splits)
  with m first_rows_supply show ?thesis by blast
qed

lemma prepareLoop_frames:
  "pf \<in> set (prepareLoop E v rot frs) \<Longrightarrow>
     p_frame pf \<in> set frs \<and> (\<exists>c. frameToCamera E (p_frame pf) v rot = Some c)"
  by (induction frs) (auto split: option.splits)

lemma mset_insertSorted: "mset (insertSorted cmp a bs) = add_mset a (mset bs)"
  by (induction bs) auto

lemma mset_arraySort: "mset (arraySort cmp xs) = mset xs"
  by (induction xs) (auto simp add: arraySort_def mset_insertSorted)

lemma set_arraySort: "set (arraySort cmp xs) = set xs"
  using mset_arraySort [of cmp xs] by (metis set_mset_mset)

lemma valid_frames:
  assumes "g \<in> set (validTransformFrames E frames)"
  shows "\<exists>fr\<in>set frames. g = fr\<lparr>sort_key := Some (extractFrameSortKey fr)\<rparr>"
  using assms by (auto simp add: validTransformFrames_def set_arraySort)

lemma prepared_from_wellformed:
  assumes "pf \<in> set (prepareTransformFrames E v rot frames)"
  shows "\<exists>fr\<in>set frames. \<exists>m. p_frame pf = fr\<lparr>sort_key := Some (extractFrameSortKey fr)\<rparr>
           \<and> transform_matrix fr = Some m \<and> suppliesRows m"
proof -
  from assms prepareLoop_frames [of pf E v rot "validTransformFrames E frames"]
  obtain c where a: "p_frame pf \<in> set (validTransformFrames E frames)"
      "frameToCamera E (p_frame pf) v rot = Some c"
    by (auto simp add: prepareTransformFrames_def)
  from valid_frames [OF a(1)] obtain fr where fr: "fr \<in> set frames"
      "p_frame pf = fr\<lparr>sort_key := Some (extractFrameSortKey fr)\<rparr>" by blast
  from frameToCamera_Some [OF a(2)] obtain m where "transform_matrix (p_frame pf) = Some m" "suppliesRows m"
    by blast
  with fr have "transform_matrix fr = Some m \<and> suppliesRows m" by simp
  with fr show ?thesis by blast
qed

lemma two_rows_not_supply: "length m = 2 \<Longrightarrow> \<not> suppliesRows m"
proof -
  assume "length m = 2"
  moreover have "length (filter (\<lambda>row. 4 \<le> length row) m) \<le> length m" by (rule length_filter_le)
  ultimately show ?thesis by (simp add: suppliesRows_def)
qed

lemma empty_dataset_noop:
  assumes "preparedTransformFrames M = []"
  shows "inputEvent E Ev_prevTransformFrame M = M"
    and "inputEvent E Ev_nextTransformFrame M = M"
    and "inputEvent E Ev_gotoNearestTransformFrame M = M\<lparr>matcherCalls := Suc (matcherCalls M)\<rparr>"
    and "inputEvent E Ev_gotoCurrentTransformFrame M = M"
  using assms
  by (simp_all add: inputEvent_def stepTransformFrame_def pick_empty goto_eq Let_def)

lemma tworow_empty: "preparedTransformFrames (managerAt insidePoint twoRowFrames) = []"
  by (simp add: twoRowFrames_def eval_defs)


text \<open>
  Claim C6. Every prepared frame comes from a raw frame whose matrix supplies at least
  three rows of four columns, so a raw frame without such a matrix is absent from the
  prepared dataset. A dataset in which every matrix has two rows yields no prepared frame.
  With no prepared frame the matcher returns -1 and changes nothing but the count of its
  calls, and the four navigation requests leave the selection (and the rest of the state)
  unchanged.
\<close>

theorem malformed_discarded:
  "(\<forall>pf\<in>set (prepareTransformFrames E v rot frames).
       \<exists>fr\<in>set frames. \<exists>m. p_frame pf = fr\<lparr>sort_key := Some (extractFrameSortKey fr)\<rparr>
           \<and> transform_matrix fr = Some m \<and> suppliesRows m)
   \<and> ((\<forall>fr\<in>set frames. \<forall>m. transform_matrix fr = Some m \<longrightarrow> length m = 2)
        \<longrightarrow> prepareTransformFrames E v rot frames = [])
   \<and> (preparedTransformFrames M = []
        \<longrightarrow> pickNearestFrameForCurrentView E e M = (- 1, M\<lparr>matcherCalls := Suc (matcherCalls M)\<rparr>)
          \<and> inputEvent E Ev_prevTransformFrame M = M
          \<and> inputEvent E Ev_nextTransformFrame M = M
          \<and> inputEvent E Ev_gotoNearestTransformFrame M = M\<lparr>matcherCalls := Suc (matcherCalls M)\<rparr>
          \<and> inputEvent E Ev_gotoCurrentTransformFrame M = M)"
proof -
  have a: "\<forall>pf\<in>set (prepareTransformFrames E v rot frames).
       \<exists>fr\<in>set frames. \<exists>m. p_frame pf = fr\<lparr>sort_key := Some (extractFrameSortKey fr)\<rparr>
           \<and> transform_matrix fr = Some m \<and> suppliesRows m"
    using prepared_from_wellformed by blast
  have b: "prepareTransformFrames E v rot frames = []"
    if two: "\<forall>fr\<in>set frames. \<forall>m. transform_matrix fr = Some m \<longrightarrow> length m = 2"
  proof (rule ccontr)
    assume "prepareTransformFrames E v rot frames \<noteq> []"
    then obtain pf where "pf \<in> set (prepareTransformFrames E v rot frames)"
      by (cases "prepareTransformFrames E v rot frames") auto
    from prepared_from_wellformed [OF this] obtain fr m where
      "fr \<in> set frames" "transform_matrix fr = Some m" "suppliesRows m" by blast
    with two two_rows_not_supply show False by blast
  qed
  from a b empty_dataset_noop [where E = E and M = M] pick_empty [where E = E and M = M and e = e]
  show ?thesis by blast
qed

theorem malformed_discarded_witness:
  "prepareTransformFrames simpleExt 60 None twoRowFrames = []
   \<and> preparedTransformFrames (managerAt insidePoint twoRowFrames) = []
   \<and> pickNearestFrameForCurrentView simpleExt True (managerAt insidePoint twoRowFrames)
       = (- 1, (managerAt insidePoint twoRowFrames)\<lparr>matcherCalls := Suc (matcherCalls (managerAt insidePoint twoRowFrames))\<rparr>)
   \<and> inputEvent simpleExt Ev_prevTransformFrame (managerAt insidePoint twoRowFrames)
       = managerAt insidePoint twoRowFrames
   \<and> inputEvent simpleExt Ev_nextTransformFrame (managerAt insidePoint twoRowFrames)
       = managerAt insidePoint twoRowFrames
   \<and> inputEvent simpleExt Ev_gotoCurrentTransformFrame (managerAt insidePoint twoRowFrames)
       = managerAt insidePoint twoRowFrames
   \<and> transformFrameIndex (inputEvent simpleExt Ev_gotoNearestTransformFrame (managerAt insidePoint twoRowFrames))
       = - 1"
proof -
  have two: "\<forall>fr\<in>set twoRowFrames. \<forall>m. transform_matrix fr = Some m \<longrightarrow> length m = 2"
    by (simp add: twoRowFrames_def frameOf_def twoRowMatrix_def)
  have idx: "transformFrameIndex (managerAt insidePoint twoRowFrames) = - 1"
    by (simp add: managerAt_def construct_def Let_def)
  from two tworow_empty idx
    malformed_discarded [of simpleExt 60 None twoRowFrames "managerAt insidePoint twoRowFrames" True]
  show ?thesis by simp
qed


subsection \<open>Cyclic navigation\<close>

lemma two_prepared: "length (preparedTransformFrames (managerAt insidePoint twoFrames)) = 2"
  by (simp add: twoFrames_def eval_defs)

lemma two_pick: "fst (pickNearestFrameForCurrentView simpleExt True (managerAt insidePoint twoFrames)) = 0"
  by (simp add: pickNearestFrameForCurrentView_def frameScore_def twoFrames_def eval_defs)


text \<open>
  Claim C9. On a non-empty prepared dataset of \<open>n\<close> frames, with a valid selection \<open>i\<close> a
  next request selects \<open>(i + 1) mod n\<close> and a previous request \<open>(i - 1 + n) mod n\<close>; with no
  selection the step takes the index that the matcher returns for the current view, an
  index of the dataset, and steps from it.
\<close>

theorem step_cyclic:
  assumes "preparedTransformFrames M \<noteq> []"
  shows "(0 \<le> transformFrameIndex M \<and> transformFrameIndex M < int (length (preparedTransformFrames M))
          \<longrightarrow> transformFrameIndex (stepTransformFrame E 1 M)
                = (transformFrameIndex M + 1) mod int (length (preparedTransformFrames M))
            \<and> transformFrameIndex (stepTransformFrame E (- 1) M)
                = (transformFrameIndex M - 1 + int (length (preparedTransformFrames M)))
                    mod int (length (preparedTransformFrames M)))
       \<and> (transformFrameIndex M < 0
          \<longrightarrow> 0 \<le> fst (pickNearestFrameForCurrentView E True M)
            \<and> fst (pickNearestFrameForCurrentView E True M) < int (length (preparedTransformFrames M))
            \<and> transformFrameIndex (stepTransformFrame E 1 M)
                = (fst (pickNearestFrameForCurrentView E True M) + 1)
                    mod int (length (preparedTransformFrames M))
            \<and> transformFrameIndex (stepTransformFrame E (- 1) M)
                = (fst (pickNearestFrameForCurrentView E True M) - 1
                     + int (length (preparedTransformFrames M)))
                    mod int (length (preparedTransformFrames M)))
       \<and> inputEvent E Ev_nextTransformFrame M = stepTransformFrame E 1 M
       \<and> inputEvent E Ev_prevTransformFrame M = stepTransformFrame E (- 1) M"
proof -
  let ?n = "int (length (preparedTransformFrames M))"
  have n: "0 < ?n" using assms by simp
  have sel: "transformFrameIndex (stepTransformFrame E s M) = (transformFrameIndex M + s + ?n) mod ?n"
    if "0 \<le> transformFrameIndex M" "s = 1 \<or> s = - 1" for s
    using step_selected [OF assms that, where E = E] n by (simp add: goto_eq)
  obtain k where k: "0 \<le> k" "k < ?n"
     "pickNearestFrameForCurrentView E True M =
          (k, M\<lparr>transformFrameIndex := k, fired := fired M @ [selectedEvent M k],
                matcherCalls := Suc (matcherCalls M)\<rparr>)"
    using pick_nonempty [OF assms, of E True] by auto
  let ?M1 = "M\<lparr>transformFrameIndex := k, fired := fired M @ [selectedEvent M k],
                matcherCalls := Suc (matcherCalls M)\<rparr>"
  have unsel: "transformFrameIndex (stepTransformFrame E s M) = (k + s + ?n) mod ?n"
    if "transformFrameIndex M < 0" "s = 1 \<or> s = - 1" for s
  proof -
    have ne1: "preparedTransformFrames ?M1 \<noteq> []" using assms by simp
    have i1: "0 \<le> transformFrameIndex ?M1" using k by simp
    from step_unselected [OF assms that, where E = E] k(3)
    have "stepTransformFrame E s M = stepTransformFrame E s ?M1" by simp
    also have "transformFrameIndex (stepTransformFrame E s ?M1) = (k + s + ?n) mod ?n"
      using step_selected [OF ne1 i1 that(2), where E = E] n by (simp add: goto_eq)
    finally show ?thesis .
  qed
  have ev: "inputEvent E Ev_nextTransformFrame M = stepTransformFrame E 1 M
       \<and> inputEvent E Ev_prevTransformFrame M = stepTransformFrame E (- 1) M"
    by (simp add: inputEvent_def)
  from sel [of 1] sel [of "- 1"] unsel [of 1] unsel [of "- 1"] k ev show ?thesis
    by (simp add: add.commute)
qed

theorem step_cyclic_witness:
  "preparedTransformFrames (managerAt insidePoint twoFrames) \<noteq> []
   \<and> transformFrameIndex (managerAt insidePoint twoFrames) < 0
   \<and> transformFrameIndex (stepTransformFrame simpleExt 1 (managerAt insidePoint twoFrames)) = 1
   \<and> transformFrameIndex (stepTransformFrame simpleExt (- 1) (managerAt insidePoint twoFrames)) = 1
   \<and> preparedTransformFrames ((managerAt insidePoint twoFrames)\<lparr>transformFrameIndex := 1\<rparr>) \<noteq> []
   \<and> transformFrameIndex
        (stepTransformFrame simpleExt 1 ((managerAt insidePoint twoFrames)\<lparr>transformFrameIndex := 1\<rparr>)) = 0
   \<and> transformFrameIndex
        (stepTransformFrame simpleExt (- 1) ((managerAt insidePoint twoFrames)\<lparr>transformFrameIndex := 1\<rparr>)) = 0"
proof -
  have ne: "preparedTransformFrames (managerAt insidePoint twoFrames) \<noteq> []"
    using two_prepared by auto
  have ne1: "preparedTransformFrames ((managerAt insidePoint twoFrames)\<lparr>transformFrameIndex := 1\<rparr>) \<noteq> []"
    using ne by simp
  have idx: "transformFrameIndex (managerAt insidePoint twoFrames) = - 1"
    by (simp add: managerAt_def construct_def Let_def)
  from ne ne1 idx two_prepared two_pick
    step_cyclic [OF ne, of simpleExt] step_cyclic [OF ne1, of simpleExt]
  show ?thesis by simp
qed


subsection \<open>The selection invariant\<close>

lemma inv_pick:
  assumes "selectionInvariant M"
  shows "selectionInvariant (snd (pickNearestFrameForCurrentView E e M))"
proof (cases "preparedTransformFrames M = []")
  case True
  with assms show ?thesis
    by (simp add: pick_empty selectionInvariant_def indexInRange_def eventsInRange_def)
next
  case False
  from pick_nonempty [OF False, of E e] obtain k where k: "0 \<le> k"
     "k < int (length (preparedTransformFrames M))"
     "pickNearestFrameForCurrentView E e M =
          (k, M\<lparr>transformFrameIndex := k,
                fired := fired M @ (if e then [selectedEvent M k] else []),
                matcherCalls := Suc (matcherCalls M)\<rparr>)"
    by auto
  with assms show ?thesis
    by (simp add: selectionInvariant_def indexInRange_def eventsInRange_def selectedEvent_def)
qed

lemma inv_goto:
  assumes "selectionInvariant M"
  shows "selectionInvariant (gotoTransformFrameIndex E i M)"
  using assms
  by (simp add: goto_eq selectionInvariant_def indexInRange_def eventsInRange_def selectedEvent_def)

lemma inv_goto_written:
  assumes "eventsInRange M" and "0 \<le> i" and "i < int (length (preparedTransformFrames M))"
  shows "selectionInvariant (gotoTransformFrameIndex E i (M\<lparr>transformFrameIndex := j\<rparr>))"
  using assms
  by (simp add: goto_eq selectionInvariant_def indexInRange_def eventsInRange_def selectedEvent_def)

lemma inv_step:
  assumes "selectionInvariant M" and "s = 1 \<or> s = - 1"
  shows "selectionInvariant (stepTransformFrame E s M)"
proof (cases "preparedTransformFrames M = []")
  case True
  with assms show ?thesis by (simp add: stepTransformFrame_def)
next
  case False
  let ?n = "int (length (preparedTransformFrames M))"
  have n: "0 < ?n" using False by simp
  show ?thesis
  proof (cases "0 \<le> transformFrameIndex M")
    case True
    have ev: "eventsInRange M" using assms(1) by (simp add: selectionInvariant_def)
    have "0 \<le> (transformFrameIndex M + s + ?n) mod ?n" "(transformFrameIndex M + s + ?n) mod ?n < ?n"
      using n by simp_all
    from inv_goto_written [OF ev this, where E = E] step_selected [OF False True assms(2), where E = E]
    show ?thesis by simp
  next
    case neg: False
    let ?M1 = "snd (pickNearestFrameForCurrentView E True M)"
    have inv1: "selectionInvariant ?M1" by (rule inv_pick [OF assms(1)])
    have same: "preparedTransformFrames ?M1 = preparedTransformFrames M"
      using pick_nonempty [OF False, of E True] by auto
    have ne1: "preparedTransformFrames ?M1 \<noteq> []" using False same by simp
    from neg step_unselected [OF False _ assms(2), where E = E]
    have st: "stepTransformFrame E s M = stepTransformFrame E s ?M1"
      and i1: "0 \<le> transformFrameIndex ?M1" by simp_all
    have ev: "eventsInRange ?M1" using inv1 by (simp add: selectionInvariant_def)
    let ?m = "int (length (preparedTransformFrames ?M1))"
    have m: "0 < ?m" using ne1 by simp
    have "0 \<le> (transformFrameIndex ?M1 + s + ?m) mod ?m" "(transformFrameIndex ?M1 + s + ?m) mod ?m < ?m"
      using m by simp_all
    from inv_goto_written [OF ev this, where E = E] step_selected [OF ne1 i1 assms(2), where E = E] st
    show ?thesis by simp
  qed
qed

lemma inv_settle:
  assumes "selectionInvariant M"
  shows "selectionInvariant (settle E mv dt M)"
proof -
  have a: "selectionInvariant (M\<lparr>wasMoving := w, settledTime := t\<rparr>)" for w t
    using assms by (simp add: selectionInvariant_def indexInRange_def eventsInRange_def)
  have b: "selectionInvariant (M\<lparr>settledTime := t\<rparr>)" for t
    using assms by (simp add: selectionInvariant_def indexInRange_def eventsInRange_def)
  show ?thesis
    using a b assms inv_pick [OF a, where E = E and e = True]
    by (simp add: settle_def Let_def)
qed

lemma inv_poseStep:
  assumes "selectionInvariant M"
  shows "case poseStep E dt f M of Inl e \<Rightarrow> selectionInvariant (snd e) | Inr M4 \<Rightarrow> selectionInvariant M4"
  using assms
  by (simp add: poseStep_def Let_def blend_def selectionInvariant_def indexInRange_def eventsInRange_def)

lemma inv_update:
  assumes "selectionInvariant M"
  shows "case update E dt f M of Inl e \<Rightarrow> selectionInvariant (snd e) | Inr M' \<Rightarrow> selectionInvariant M'"
proof (cases "poseStep E dt f M")
  case (Inl e)
  with inv_poseStep [OF assms, of E dt f] show ?thesis by (simp add: update_def)
next
  case (Inr M4)
  with inv_poseStep [OF assms, of E dt f] have "selectionInvariant M4" by simp
  from inv_settle [OF this, of E "movingNow E M4" dt] Inr show ?thesis
    by (simp add: update_def Let_def selectionInvariant_def indexInRange_def eventsInRange_def)
qed

lemma inv_inputEvent:
  assumes "selectionInvariant M"
  shows "selectionInvariant (inputEvent E ev M)"
proof (cases ev)
  case Ev_prevTransformFrame
  with inv_step [OF assms, of "- 1" E] show ?thesis by (simp add: inputEvent_def)
next
  case Ev_nextTransformFrame
  with inv_step [OF assms, of 1 E] show ?thesis by (simp add: inputEvent_def)
next
  case Ev_gotoNearestTransformFrame
  with inv_pick [OF assms, of E False] inv_goto [OF inv_pick [OF assms, of E False], where E = E]
  show ?thesis by (simp add: inputEvent_def Let_def)
next
  case Ev_gotoCurrentTransformFrame
  with assms inv_goto [OF assms, where E = E] show ?thesis by (simp add: inputEvent_def)
qed (use assms in \<open>simp_all add: inputEvent_def startTransition_def selectionInvariant_def
        indexInRange_def eventsInRange_def\<close>)

lemma inv_construct:
  "selectionInvariant (construct E nc settings bb frames v rot)"
  by (simp add: construct_def Let_def selectionInvariant_def indexInRange_def eventsInRange_def)

lemma inv_others:
  assumes "selectionInvariant M"
  shows "(case cameraModeChanged E val prev M of Inl e \<Rightarrow> selectionInvariant (snd e) | Inr M' \<Rightarrow> selectionInvariant M')"
    and "(case scrubAnim E t M of Inl e \<Rightarrow> selectionInvariant (snd e) | Inr M' \<Rightarrow> selectionInvariant M')"
    and "selectionInvariant (pick E p M)"
    and "selectionInvariant (annotationActivate E ip it iv M)"
  using assms
  by (simp_all add: cameraModeChanged_def scrubAnim_def pick_def annotationActivate_def Let_def
        startTransition_def selectionInvariant_def indexInRange_def eventsInRange_def)


text \<open>
  Claim C10. The selected index is -1 or an index of the prepared dataset, and every
  \<^verbatim>\<open>transformFrame:selected\<close> event fired carries an index of the dataset and the length of
  the dataset as its count: this holds after the constructor and is kept by the matcher,
  by goto-index, by the steps forward and backward, by every input event, by the update
  and by the other handlers. An event is fired only for an index in range and carries
  that index.
\<close>

theorem selection_invariant:
  "selectionInvariant (construct E nc settings bb frames v rot)
   \<and> (selectionInvariant M \<longrightarrow>
        selectionInvariant (snd (pickNearestFrameForCurrentView E e M))
      \<and> selectionInvariant (gotoTransformFrameIndex E i M)
      \<and> selectionInvariant (stepTransformFrame E 1 M)
      \<and> selectionInvariant (stepTransformFrame E (- 1) M)
      \<and> selectionInvariant (inputEvent E ev M)
      \<and> (case update E dt f M of
            Inl err \<Rightarrow> selectionInvariant (snd err) | Inr M' \<Rightarrow> selectionInvariant M')
      \<and> (case cameraModeChanged E val prev M of
            Inl err \<Rightarrow> selectionInvariant (snd err) | Inr M' \<Rightarrow> selectionInvariant M')
      \<and> (case scrubAnim E t M of
            Inl err \<Rightarrow> selectionInvariant (snd err) | Inr M' \<Rightarrow> selectionInvariant M')
      \<and> selectionInvariant (pick E p M)
      \<and> selectionInvariant (annotationActivate E ip it iv M))
   \<and> emitSelectedTransformFrame M =
       (if 0 \<le> transformFrameIndex M
           \<and> transformFrameIndex M < int (length (preparedTransformFrames M))
        then M\<lparr>fired := fired M @ [selectedEvent M (transformFrameIndex M)]\<rparr> else M)"
proof -
  have pres: "selectionInvariant (snd (pickNearestFrameForCurrentView E e M))
      \<and> selectionInvariant (gotoTransformFrameIndex E i M)
      \<and> selectionInvariant (stepTransformFrame E 1 M)
      \<and> selectionInvariant (stepTransformFrame E (- 1) M)
      \<and> selectionInvariant (inputEvent E ev M)
      \<and> (case update E dt f M of
            Inl err \<Rightarrow> selectionInvariant (snd err) | Inr M' \<Rightarrow> selectionInvariant M')
      \<and> (case cameraModeChanged E val prev M of
            Inl err \<Rightarrow> selectionInvariant (snd err) | Inr M' \<Rightarrow> selectionInvariant M')
      \<and> (case scrubAnim E t M of
            Inl err \<Rightarrow> selectionInvariant (snd err) | Inr M' \<Rightarrow> selectionInvariant M')
      \<and> selectionInvariant (pick E p M)
      \<and> selectionInvariant (annotationActivate E ip it iv M)"
    if inv: "selectionInvariant M"
    using inv_pick [OF inv, where E = E and e = e] inv_goto [OF inv, where E = E and i = i]
      inv_step [OF inv, where E = E and s = 1] inv_step [OF inv, where E = E and s = "- 1"]
      inv_inputEvent [OF inv, where E = E and ev = ev]
      inv_update [OF inv, where E = E and dt = dt and f = f]
      inv_others(1) [OF inv, where E = E and val = val and prev = prev]
      inv_others(2) [OF inv, where E = E and t = t]
      inv_others(3) [OF inv, where E = E and p = p]
      inv_others(4) [OF inv, where E = E and ip = ip and it = it and iv = iv]
    by simp
  from pres inv_construct [of E nc settings bb frames v rot] emit_eq [of M]
  show ?thesis by blast
qed

theorem selection_invariant_witness:
  "selectionInvariant (managerAt insidePoint twoFrames)
   \<and> selectionInvariant (stepTransformFrame simpleExt 1 (managerAt insidePoint twoFrames))
   \<and> selectionInvariant (inputEvent simpleExt Ev_gotoNearestTransformFrame (managerAt insidePoint twoFrames))
   \<and> transformFrameIndex (stepTransformFrame simpleExt 1 (managerAt insidePoint twoFrames)) = 1
   \<and> map ev_index (fired (stepTransformFrame simpleExt 1 (managerAt insidePoint twoFrames))) = [0, 1]
   \<and> map ev_count (fired (stepTransformFrame simpleExt 1 (managerAt insidePoint twoFrames))) = [2, 2]"
proof -
  have c: "selectionInvariant (managerAt insidePoint twoFrames)"
    using selection_invariant [of simpleExt "\<lambda>track. ()" "settingsAt insidePoint" unitBox twoFrames 60 None]
    by (simp add: managerAt_def)
  have ne: "preparedTransformFrames (managerAt insidePoint twoFrames) \<noteq> []"
    using two_prepared by auto
  have idx: "transformFrameIndex (managerAt insidePoint twoFrames) = - 1"
    by (simp add: managerAt_def construct_def Let_def)
  obtain k where k: "pickNearestFrameForCurrentView simpleExt True (managerAt insidePoint twoFrames) =
          (k, (managerAt insidePoint twoFrames)\<lparr>transformFrameIndex := k,
                fired := fired (managerAt insidePoint twoFrames)
                  @ (if True then [selectedEvent (managerAt insidePoint twoFrames) k] else []),
                matcherCalls := Suc (matcherCalls (managerAt insidePoint twoFrames))\<rparr>)"
    using pick_nonempty [OF ne, of simpleExt True] by blast
  with two_pick have k0: "k = 0" by simp
  have f0: "fired (managerAt insidePoint twoFrames) = []"
    by (simp add: managerAt_def construct_def Let_def)
  have run: "transformFrameIndex (stepTransformFrame simpleExt 1 (managerAt insidePoint twoFrames)) = 1
     \<and> map ev_index (fired (stepTransformFrame simpleExt 1 (managerAt insidePoint twoFrames))) = [0, 1]
     \<and> map ev_count (fired (stepTransformFrame simpleExt 1 (managerAt insidePoint twoFrames))) = [2, 2]"
    using k k0 idx f0 two_prepared
    by (simp add: stepTransformFrame_def Let_def goto_eq selectedEvent_def js_rem_def)
  from c run
    selection_invariant [of simpleExt "\<lambda>track. ()" "settingsAt insidePoint" unitBox twoFrames 60 None
       "managerAt insidePoint twoFrames" True 0 Ev_gotoNearestTransformFrame]
  show ?thesis by simp
qed

subsection \<open>Sort keys\<close>

lemma stripLiteral_Some:
  "stripLiteral ps t = Some r \<Longrightarrow> \<exists>lit. t = lit @ r \<and> list_all2 (\<lambda>p c. c \<in> set p) ps lit"
proof (induction ps t rule: stripLiteral.induct)
  case (1 s)
  then show ?case by simp
next
  case (2 p ps)
  then show ?case by simp
next
  case (3 p ps c s)
  from "3.prems" have c: "c \<in> set p" and rest: "stripLiteral ps s = Some r"
    by (auto split: if_splits)
  from "3.IH" [OF c rest] obtain lit where "s = lit @ r" "list_all2 (\<lambda>p c. c \<in> set p) ps lit"
    by blast
  with c have "c # s = (c # lit) @ r \<and> list_all2 (\<lambda>p c. c \<in> set p) (p # ps) (c # lit)"
    by simp
  then show ?case by blast
qed

lemma stripLiteral_append:
  "list_all2 (\<lambda>p c. c \<in> set p) ps lit \<Longrightarrow> stripLiteral ps (lit @ r) = Some r"
  by (induction ps lit rule: list_all2_induct) auto

lemma matchAt_unfold:
  "stripLiteral frameLiteral t = Some r \<Longrightarrow>
   matchAt t =
     (if takeWhile isDigit r = [] then None
      else (case dropWhile isDigit r of
              [] \<Rightarrow> Some (takeWhile isDigit r)
            | c # ext \<Rightarrow>
                if c = CHR ''.'' \<and> ext \<noteq> [] \<and> list_all isExtChar ext
                then Some (takeWhile isDigit r) else None))"
  by (simp add: matchAt_def Let_def)

lemma matchAt_Some:
  assumes "matchAt t = Some ds"
  shows "\<exists>lit ext. t = lit @ ds @ ext \<and> list_all2 (\<lambda>p c. c \<in> set p) frameLiteral lit
        \<and> ds \<noteq> [] \<and> list_all isDigit ds
        \<and> (ext = [] \<or> (\<exists>e. ext = CHR ''.'' # e \<and> e \<noteq> [] \<and> list_all isExtChar e))"
proof -
  from assms obtain r where r: "stripLiteral frameLiteral t = Some r"
    by (cases "stripLiteral frameLiteral t") (simp_all add: matchAt_def)
  from stripLiteral_Some [OF r] obtain lit where lit: "t = lit @ r"
      "list_all2 (\<lambda>p c. c \<in> set p) frameLiteral lit" by blast
  note m = matchAt_unfold [OF r]
  have ne: "takeWhile isDigit r \<noteq> []"
    using assms m by (cases "takeWhile isDigit r = []") simp_all
  have ext: "dropWhile isDigit r = []
      \<or> (\<exists>e. dropWhile isDigit r = CHR ''.'' # e \<and> e \<noteq> [] \<and> list_all isExtChar e)"
  proof (cases "dropWhile isDigit r")
    case Nil
    then show ?thesis by simp
  next
    case (Cons c e)
    with assms m ne have "c = CHR ''.'' \<and> e \<noteq> [] \<and> list_all isExtChar e"
      by (cases "c = CHR ''.'' \<and> e \<noteq> [] \<and> list_all isExtChar e") simp_all
    with Cons show ?thesis by simp
  qed
  have ds: "ds = takeWhile isDigit r"
  proof (cases "dropWhile isDigit r")
    case Nil
    with assms m ne show ?thesis by simp
  next
    case (Cons c e)
    with assms m ne show ?thesis
      by (cases "c = CHR ''.'' \<and> e \<noteq> [] \<and> list_all isExtChar e") simp_all
  qed
  have dig: "list_all isDigit ds"
    unfolding ds list_all_iff using set_takeWhileD by fast
  have split: "r = ds @ dropWhile isDigit r" by (simp add: ds)
  from lit split have "t = lit @ ds @ dropWhile isDigit r" by simp
  with lit(2) ne ds dig ext show ?thesis by blast
qed

lemma not_digit_dot: "\<not> isDigit (CHR ''.'')"
  by (simp add: isDigit_def)

lemma matchAt_token:
  assumes "list_all2 (\<lambda>p c. c \<in> set p) frameLiteral lit" "ds \<noteq> []" "list_all isDigit ds"
    "ext = [] \<or> (\<exists>e. ext = CHR ''.'' # e \<and> e \<noteq> [] \<and> list_all isExtChar e)"
  shows "matchAt (lit @ ds @ ext) = Some ds"
proof -
  have all: "\<And>x. x \<in> set ds \<Longrightarrow> isDigit x"
    using assms(3) by (simp add: list_all_iff)
  have t1: "takeWhile isDigit (ds @ ext) = ds @ takeWhile isDigit ext"
    by (rule takeWhile_append2) (rule all)
  have d1: "dropWhile isDigit (ds @ ext) = dropWhile isDigit ext"
    by (rule dropWhile_append2) (rule all)
  have e1: "takeWhile isDigit ext = [] \<and> dropWhile isDigit ext = ext"
    using assms(4) not_digit_dot by auto
  have tw: "takeWhile isDigit (ds @ ext) = ds" and dw: "dropWhile isDigit (ds @ ext) = ext"
    using t1 d1 e1 by simp_all
  have strip: "stripLiteral frameLiteral (lit @ ds @ ext) = Some (ds @ ext)"
    by (rule stripLiteral_append [OF assms(1)])
  have m: "matchAt (lit @ ds @ ext) =
     (case ext of [] \<Rightarrow> Some ds
      | c # e \<Rightarrow> if c = CHR ''.'' \<and> e \<noteq> [] \<and> list_all isExtChar e then Some ds else None)"
    unfolding matchAt_unfold [OF strip] tw dw using assms(2) by simp
  from assms(4) show ?thesis
  proof
    assume "ext = []"
    with m show ?thesis by simp
  next
    assume "\<exists>e. ext = CHR ''.'' # e \<and> e \<noteq> [] \<and> list_all isExtChar e"
    then obtain e where "ext = CHR ''.'' # e" "e \<noteq> []" "list_all isExtChar e" by blast
    with m show ?thesis by simp
  qed
qed

lemma regexSearch_Some:
  "regexSearch s = Some ds \<Longrightarrow> \<exists>pre t. s = pre @ t \<and> matchAt t = Some ds"
proof (induction s)
  case Nil
  then have "[] = [] @ [] \<and> matchAt [] = Some ds" by simp
  then show ?case by (intro exI)
next
  case (Cons c s)
  show ?case
  proof (cases "matchAt (c # s)")
    case None
    with Cons.prems have "regexSearch s = Some ds" by simp
    from Cons.IH [OF this] obtain pre t where "s = pre @ t" "matchAt t = Some ds" by blast
    then have "c # s = (c # pre) @ t \<and> matchAt t = Some ds" by simp
    then show ?thesis by (intro exI)
  next
    case (Some d)
    with Cons.prems have "c # s = [] @ (c # s) \<and> matchAt (c # s) = Some ds" by simp
    then show ?thesis by (intro exI)
  qed
qed

lemma regexSearch_found:
  "matchAt t = Some ds \<Longrightarrow> regexSearch (pre @ t) \<noteq> None"
proof (induction pre)
  case Nil
  then show ?case by (cases t) auto
next
  case (Cons c pre)
  then show ?case by (cases "matchAt (c # pre @ t)") auto
qed

lemma regexSearch_token: "(regexSearch s \<noteq> None) = (\<exists>ds. frameToken s ds)"
proof
  assume "regexSearch s \<noteq> None"
  then obtain ds where "regexSearch s = Some ds" by auto
  from regexSearch_Some [OF this] obtain pre t where t: "s = pre @ t" "matchAt t = Some ds" by blast
  from matchAt_Some [OF t(2)] t(1) have "frameToken s ds"
    unfolding frameToken_def by blast
  then show "\<exists>ds. frameToken s ds" by blast
next
  assume "\<exists>ds. frameToken s ds"
  then obtain ds pre lit ext where d: "s = pre @ lit @ ds @ ext"
      "list_all2 (\<lambda>p c. c \<in> set p) frameLiteral lit" "ds \<noteq> []" "list_all isDigit ds"
      "ext = [] \<or> (\<exists>e. ext = CHR ''.'' # e \<and> e \<noteq> [] \<and> list_all isExtChar e)"
    unfolding frameToken_def by blast
  from matchAt_token [OF d(2-5)] regexSearch_found [of "lit @ ds @ ext" ds pre] d(1)
  show "regexSearch s \<noteq> None" by simp
qed

lemma regexSearch_token_digits: "regexSearch s = Some ds \<Longrightarrow> frameToken s ds"
proof -
  assume "regexSearch s = Some ds"
  from regexSearch_Some [OF this] obtain pre t where t: "s = pre @ t" "matchAt t = Some ds" by blast
  from matchAt_Some [OF t(2)] t(1) show "frameToken s ds"
    unfolding frameToken_def by blast
qed

lemma parseInt10_digits:
  assumes "ds \<noteq> []" and "list_all isDigit ds"
  shows "parseInt10 ds = roundToDouble (decimal ds)"
proof -
  have "\<forall>x\<in>set ds. isDigit x" using assms(2) by (simp add: list_all_iff)
  then have tw: "takeWhile isDigit ds = ds" by (simp only: takeWhile_eq_all_conv)
  show ?thesis unfolding parseInt10_def Let_def decimal_def tw using assms(1) by simp
qed

lemma extractFrameSortKey_cases:
  "(\<exists>ds. frameToken (pathOf fr) ds \<and> extractFrameSortKey fr = roundToDouble (decimal ds))
   \<or> (\<not> (\<exists>ds. frameToken (pathOf fr) ds) \<and> extractFrameSortKey fr = PosInf)"
proof (cases "regexSearch (pathOf fr)")
  case None
  with regexSearch_token [of "pathOf fr"] have "\<not> (\<exists>ds. frameToken (pathOf fr) ds)" by simp
  moreover from None have "extractFrameSortKey fr = PosInf"
    by (simp add: extractFrameSortKey_def pathOf_def)
  ultimately show ?thesis by blast
next
  case (Some ds)
  from regexSearch_token_digits [OF Some] have tok: "frameToken (pathOf fr) ds" .
  then have "ds \<noteq> []" "list_all isDigit ds" by (auto simp add: frameToken_def)
  from parseInt10_digits [OF this] Some roundToDouble_not_NaN [of "decimal ds"]
  have "extractFrameSortKey fr = roundToDouble (decimal ds)"
    by (simp add: extractFrameSortKey_def pathOf_def)
  with tok show ?thesis by blast
qed

lemma goodKey_extract: "goodKey (extractFrameSortKey fr)"
proof -
  from extractFrameSortKey_cases [of fr] show ?thesis
  proof
    assume "\<exists>ds. frameToken (pathOf fr) ds \<and> extractFrameSortKey fr = roundToDouble (decimal ds)"
    then obtain ds where "extractFrameSortKey fr = roundToDouble (decimal ds)" by blast
    with roundToDouble_cases [of "decimal ds"] show ?thesis by (auto simp add: goodKey_def)
  next
    assume "\<not> (\<exists>ds. frameToken (pathOf fr) ds) \<and> extractFrameSortKey fr = PosInf"
    then show ?thesis by (simp add: goodKey_def)
  qed
qed

lemma extract_updated:
  "extractFrameSortKey (fr\<lparr>sort_key := k\<rparr>) = extractFrameSortKey fr"
  by (simp add: extractFrameSortKey_def)


subsection \<open>The order of the prepared dataset\<close>

lemma compare_greater:
  assumes "consistentComparator (localeCompare E)" "goodKey (keyOf a)" "goodKey (keyOf b)"
    and "js_less (Fin 0) (sortCompare (compareFrames E) a b)"
  shows "frameLe E b a"
proof -
  from assms(1) have tot: "\<And>x y. 0 < localeCompare E x y \<Longrightarrow> localeCompare E y x \<le> 0"
    by (simp add: consistentComparator_def)
  from assms(2,3) consider
      (ff) x y where "keyOf a = Fin x" "keyOf b = Fin y"
    | (fi) x where "keyOf a = Fin x" "keyOf b = PosInf"
    | (jf) y where "keyOf a = PosInf" "keyOf b = Fin y"
    | (ii) "keyOf a = PosInf" "keyOf b = PosInf"
    by (auto simp add: goodKey_def)
  then show ?thesis
  proof cases
    case ff
    show ?thesis
    proof (cases "x = y")
      case True
      with ff assms(4) have "0 < localeCompare E (pathOf a) (pathOf b)"
        by (simp add: sortCompare_def compareFrames_def Let_def)
      from tot [OF this] ff True show ?thesis by (simp add: frameLe_def)
    next
      case False
      with ff assms(4) have "y < x"
        by (simp add: sortCompare_def compareFrames_def Let_def)
      with ff show ?thesis by (simp add: frameLe_def)
    qed
  next
    case fi
    with assms(4) show ?thesis by (simp add: sortCompare_def compareFrames_def Let_def)
  next
    case jf
    then show ?thesis by (simp add: frameLe_def)
  next
    case ii
    then show ?thesis by (simp add: frameLe_def)
  qed
qed

lemma compare_not_greater:
  assumes "goodKey (keyOf a)" "goodKey (keyOf b)"
    and "\<not> js_less (Fin 0) (sortCompare (compareFrames E) a b)"
  shows "frameLe E a b"
proof -
  from assms(1,2) consider
      (ff) x y where "keyOf a = Fin x" "keyOf b = Fin y"
    | (fi) x where "keyOf a = Fin x" "keyOf b = PosInf"
    | (jf) y where "keyOf a = PosInf" "keyOf b = Fin y"
    | (ii) "keyOf a = PosInf" "keyOf b = PosInf"
    by (auto simp add: goodKey_def)
  then show ?thesis
  proof cases
    case ff
    show ?thesis
    proof (cases "x = y")
      case True
      with ff assms(3) have "localeCompare E (pathOf a) (pathOf b) \<le> 0"
        by (simp add: sortCompare_def compareFrames_def Let_def)
      with ff True show ?thesis by (simp add: frameLe_def)
    next
      case False
      with ff assms(3) have "x < y"
        by (simp add: sortCompare_def compareFrames_def Let_def)
      with ff show ?thesis by (simp add: frameLe_def)
    qed
  next
    case fi
    then show ?thesis by (simp add: frameLe_def)
  next
    case jf
    with assms(3) show ?thesis by (simp add: sortCompare_def compareFrames_def Let_def)
  next
    case ii
    then show ?thesis by (simp add: frameLe_def)
  qed
qed

lemma frameLe_trans:
  assumes "consistentComparator (localeCompare E)"
    and "goodKey (keyOf a)" "goodKey (keyOf b)" "goodKey (keyOf c)"
    and "frameLe E a b" "frameLe E b c"
  shows "frameLe E a c"
proof -
  from assms(1) have tr: "\<And>x y z. localeCompare E x y \<le> 0 \<Longrightarrow> localeCompare E y z \<le> 0
      \<Longrightarrow> localeCompare E x z \<le> 0"
    unfolding consistentComparator_def by blast
  from assms(2) consider (fa) x where "keyOf a = Fin x" | (ia) "keyOf a = PosInf"
    by (auto simp add: goodKey_def)
  then show ?thesis
  proof cases
    case fa
    from assms(3) consider (fb) y where "keyOf b = Fin y" | (ib) "keyOf b = PosInf"
      by (auto simp add: goodKey_def)
    then show ?thesis
    proof cases
      case fb
      from assms(4) consider (fc) z where "keyOf c = Fin z" | (ic) "keyOf c = PosInf"
        by (auto simp add: goodKey_def)
      then show ?thesis
      proof cases
        case fc
        with fa fb assms(5,6) tr [of "pathOf a" "pathOf b" "pathOf c"] show ?thesis
          by (auto simp add: frameLe_def)
      next
        case ic
        with fa show ?thesis by (simp add: frameLe_def)
      qed
    next
      case ib
      with fa assms(6) have "keyOf c = PosInf"
        by (cases "keyOf c") (auto simp add: frameLe_def)
      with fa show ?thesis by (simp add: frameLe_def)
    qed
  next
    case ia
    with assms(5) have "keyOf b = PosInf" by (cases "keyOf b") (auto simp add: frameLe_def)
    with assms(6) have "keyOf c = PosInf" by (cases "keyOf c") (auto simp add: frameLe_def)
    with ia show ?thesis by (simp add: frameLe_def)
  qed
qed

lemma set_insertSorted: "set (insertSorted cmp a bs) = insert a (set bs)"
  using mset_insertSorted [of cmp a bs] by (metis set_mset_add_mset_insert set_mset_mset)

lemma sorted_insertSorted:
  assumes cons: "consistentComparator (localeCompare E)"
  shows "goodKey (keyOf a) \<Longrightarrow> \<forall>b\<in>set bs. goodKey (keyOf b) \<Longrightarrow> sorted_wrt (frameLe E) bs
     \<Longrightarrow> sorted_wrt (frameLe E) (insertSorted (compareFrames E) a bs)"
proof (induction bs)
  case Nil
  then show ?case by simp
next
  case (Cons b bs)
  from Cons.prems have gb: "goodKey (keyOf b)" and gbs: "\<forall>x\<in>set bs. goodKey (keyOf x)"
    and sb: "\<forall>x\<in>set bs. frameLe E b x" and ss: "sorted_wrt (frameLe E) bs"
    by simp_all
  show ?case
  proof (cases "js_less (Fin 0) (sortCompare (compareFrames E) a b)")
    case True
    from compare_greater [OF cons Cons.prems(1) gb True] have "frameLe E b a" .
    with sb have "\<forall>x\<in>set (insertSorted (compareFrames E) a bs). frameLe E b x"
      by (simp add: set_insertSorted)
    with Cons.IH [OF Cons.prems(1) gbs ss] True show ?thesis by simp
  next
    case False
    from compare_not_greater [OF Cons.prems(1) gb False] have ab: "frameLe E a b" .
    have "\<forall>x\<in>set bs. frameLe E a x"
    proof
      fix x assume x: "x \<in> set bs"
      with gbs sb have "goodKey (keyOf x)" "frameLe E b x" by simp_all
      from frameLe_trans [OF cons Cons.prems(1) gb this(1) ab this(2)] show "frameLe E a x" .
    qed
    with ab sb ss False show ?thesis by simp
  qed
qed

lemma sorted_arraySort:
  assumes cons: "consistentComparator (localeCompare E)"
  shows "\<forall>a\<in>set as. goodKey (keyOf a) \<Longrightarrow> sorted_wrt (frameLe E) (arraySort (compareFrames E) as)"
proof (induction as)
  case Nil
  then show ?case by (simp add: arraySort_def)
next
  case (Cons a as)
  then have ga: "goodKey (keyOf a)" and gas: "\<forall>x\<in>set as. goodKey (keyOf x)" by simp_all
  have g: "\<forall>x\<in>set (arraySort (compareFrames E) as). goodKey (keyOf x)"
    using gas by (simp add: set_arraySort)
  from sorted_insertSorted [OF cons ga g Cons.IH [OF gas]] show ?case
    by (simp add: arraySort_def)
qed

lemma sorted_valid:
  assumes "consistentComparator (localeCompare E)"
  shows "sorted_wrt (frameLe E) (validTransformFrames E frames)"
  unfolding validTransformFrames_def
  by (rule sorted_arraySort [OF assms]) (auto simp add: keyOf_def goodKey_extract)

lemma map_frame_prepareLoop:
  "map p_frame (prepareLoop E v rot frs) = filter (\<lambda>fr. frameToCamera E fr v rot \<noteq> None) frs"
  by (induction frs) (auto split: option.splits)

lemma prepared_keys:
  assumes "pf \<in> set (prepareTransformFrames E v rot frames)"
  shows "sort_key (p_frame pf) = Some (extractFrameSortKey (p_frame pf))"
proof -
  from prepared_from_wellformed [OF assms] obtain fr where
    "p_frame pf = fr\<lparr>sort_key := Some (extractFrameSortKey fr)\<rparr>" by blast
  then show ?thesis by (simp add: extract_updated)
qed

lemma example_order:
  "map pathOf (map p_frame (prepareTransformFrames E v rot exampleFrames))
     = [''frame_002.png'', ''frame_010.png'', ''foo.png'']"
  by (simp add: exampleFrames_def eval_defs)

lemma plainCompare_consistent: "consistentComparator (localeCompare simpleExt)"
  by (auto simp add: consistentComparator_def simpleExt_def plainCompare_def split: if_splits)

lemma rounded_keys:
  "extractFrameSortKey (frameOf ''a/frame_9007199254740993.png'' m) = Fin 9007199254740992"
  "extractFrameSortKey (frameOf ''b/frame_9007199254740992.png'' m) = Fin 9007199254740992"
  by (simp_all add: roundToDouble_examples extractFrameSortKey_def frameOf_def matchAt_def
        frameLiteral_def isDigit_def isExtChar_def parseInt10_def digitValue_def Let_def)

lemmas sort_defs =
  prepareTransformFrames_def validTransformFrames_def arraySort_def sortCompare_def
  compareFrames_def keyOf_def pathOf_def frameToCamera_def originMatrix_def frameOf_def
  simpleExt_def plainCompare_def Let_def

lemma rounded_order:
  "map pathOf (map p_frame (prepareTransformFrames simpleExt 60 None roundedFrames))
     = [''a/frame_9007199254740993.png'', ''b/frame_9007199254740992.png'']"
  "map keyOf (map p_frame (prepareTransformFrames simpleExt 60 None roundedFrames))
     = [Fin 9007199254740992, Fin 9007199254740992]"
  unfolding roundedFrames_def
  by (simp_all add: rounded_keys [unfolded frameOf_def] sort_defs)

lemma tied_order:
  "map pathOf (map p_frame (prepareTransformFrames simpleExt 60 None tiedFrames))
     = [''a/frame_001.png'', ''b/frame_1.png'', ''foo.png'']"
  by (simp add: tiedFrames_def simpleExt_def plainCompare_def eval_defs)


text \<open>
  Claim C2, as stated, fails: a file name with a trailing integer token before its
  extension, but without the literal \<^verbatim>\<open>frame_\<close>, gets the key +infinity.
\<close>

theorem sort_key_needs_frame_literal:
  "spec_sortKey ''img_002.png'' = Fin 2
   \<and> extractFrameSortKey (frameOf ''img_002.png'' originMatrix) = PosInf"
  by (simp add: spec_sortKey_def decimal_def Let_def eval_defs)


text \<open>
  Claim C2, amended. The sort key of a frame is the Number that \<^verbatim>\<open>parseInt\<close> gives for the
  digits of a token \<^verbatim>\<open>frame_<digits>\<close> (in any case, optionally followed by one extension) at
  the end of its path: the value of the digits when it is below 2^53, beyond that the
  value rounded to a double (+infinity once the rounding reaches 2^1024); the key is
  +infinity when the path
  ends with no such token. For a consistent \<^verbatim>\<open>localeCompare\<close> the prepared dataset is
  ordered by ascending sort key, frames with key +infinity last, and frames with the same
  finite key by \<^verbatim>\<open>localeCompare\<close> of their paths; every prepared frame carries its
  extracted key. The frames \<^verbatim>\<open>frame_002.png\<close>, \<^verbatim>\<open>frame_010.png\<close>, \<^verbatim>\<open>foo.png\<close> come out in the
  order 002, 010, foo.
\<close>

theorem prepared_order:
  assumes "consistentComparator (localeCompare E)"
  shows "sorted_wrt (frameLe E) (map p_frame (prepareTransformFrames E v rot frames))
       \<and> (\<forall>pf\<in>set (prepareTransformFrames E v rot frames).
             sort_key (p_frame pf) = Some (extractFrameSortKey (p_frame pf)))
       \<and> ((\<exists>ds. frameToken (pathOf fr) ds
                \<and> extractFrameSortKey fr = roundToDouble (decimal ds)
                \<and> (decimal ds < 2 ^ 53 \<longrightarrow> extractFrameSortKey fr = Fin (decimal ds)))
          \<or> ((\<forall>ds. \<not> frameToken (pathOf fr) ds) \<and> extractFrameSortKey fr = PosInf))
       \<and> map pathOf (map p_frame (prepareTransformFrames E v rot exampleFrames))
            = [''frame_002.png'', ''frame_010.png'', ''foo.png'']"
proof -
  have a: "sorted_wrt (frameLe E) (map p_frame (prepareTransformFrames E v rot frames))"
    unfolding prepareTransformFrames_def map_frame_prepareLoop
    by (rule sorted_wrt_filter) (rule sorted_valid [OF assms])
  have b: "\<forall>pf\<in>set (prepareTransformFrames E v rot frames).
             sort_key (p_frame pf) = Some (extractFrameSortKey (p_frame pf))"
    using prepared_keys by blast
  have c: "(\<exists>ds. frameToken (pathOf fr) ds
                \<and> extractFrameSortKey fr = roundToDouble (decimal ds)
                \<and> (decimal ds < 2 ^ 53 \<longrightarrow> extractFrameSortKey fr = Fin (decimal ds)))
          \<or> ((\<forall>ds. \<not> frameToken (pathOf fr) ds) \<and> extractFrameSortKey fr = PosInf)"
  proof (rule disjE [OF extractFrameSortKey_cases [of fr]])
    assume "\<exists>ds. frameToken (pathOf fr) ds \<and> extractFrameSortKey fr = roundToDouble (decimal ds)"
    then obtain ds where ds: "frameToken (pathOf fr) ds"
        "extractFrameSortKey fr = roundToDouble (decimal ds)" by blast
    have "decimal ds < 2 ^ 53 \<longrightarrow> extractFrameSortKey fr = Fin (decimal ds)"
      using ds(2) roundToDouble_exact [of "decimal ds"] by simp
    with ds show ?thesis by blast
  next
    assume "\<not> (\<exists>ds. frameToken (pathOf fr) ds) \<and> extractFrameSortKey fr = PosInf"
    then show ?thesis by blast
  qed
  from a b c example_order [of E v rot] show ?thesis
    by blast
qed

theorem prepared_order_witness:
  "consistentComparator (localeCompare simpleExt)
   \<and> sorted_wrt (frameLe simpleExt) (map p_frame (prepareTransformFrames simpleExt 60 None tiedFrames))
   \<and> map pathOf (map p_frame (prepareTransformFrames simpleExt 60 None tiedFrames))
        = [''a/frame_001.png'', ''b/frame_1.png'', ''foo.png'']
   \<and> map keyOf (map p_frame (prepareTransformFrames simpleExt 60 None tiedFrames))
        = [Fin 1, Fin 1, PosInf]
   \<and> map pathOf (map p_frame (prepareTransformFrames simpleExt 60 None exampleFrames))
        = [''frame_002.png'', ''frame_010.png'', ''foo.png'']
   \<and> frameToken ''frame_002.png'' ''002''
   \<and> extractFrameSortKey (frameOf ''frame_002.png'' originMatrix) = Fin 2
   \<and> extractFrameSortKey (frameOf ''foo.png'' originMatrix) = PosInf
   \<and> sorted_wrt (frameLe simpleExt)
        (map p_frame (prepareTransformFrames simpleExt 60 None roundedFrames))
   \<and> map pathOf (map p_frame (prepareTransformFrames simpleExt 60 None roundedFrames))
        = [''a/frame_9007199254740993.png'', ''b/frame_9007199254740992.png'']
   \<and> map keyOf (map p_frame (prepareTransformFrames simpleExt 60 None roundedFrames))
        = [Fin 9007199254740992, Fin 9007199254740992]"
proof -
  have k: "map keyOf (map p_frame (prepareTransformFrames simpleExt 60 None tiedFrames))
        = [Fin 1, Fin 1, PosInf]"
    by (simp add: tiedFrames_def simpleExt_def plainCompare_def eval_defs)
  have "''frame_002.png'' = [] @ ''frame_'' @ ''002'' @ ''.png''
        \<and> list_all2 (\<lambda>p c. c \<in> set p) frameLiteral ''frame_''
        \<and> ''002'' \<noteq> [] \<and> list_all isDigit ''002''
        \<and> (''.png'' = [] \<or> (\<exists>e. ''.png'' = CHR ''.'' # e \<and> e \<noteq> [] \<and> list_all isExtChar e))"
    by (simp add: frameLiteral_def isDigit_def isExtChar_def)
  then have tok: "frameToken ''frame_002.png'' ''002''"
    unfolding frameToken_def by (intro exI)
  have keys: "extractFrameSortKey (frameOf ''frame_002.png'' originMatrix) = Fin 2"
      "extractFrameSortKey (frameOf ''foo.png'' originMatrix) = PosInf"
    by (simp_all add: eval_defs)
  from plainCompare_consistent tied_order k tok keys rounded_order
    prepared_order [OF plainCompare_consistent, of 60 None tiedFrames]
    prepared_order [OF plainCompare_consistent, of 60 None roundedFrames]
  show ?thesis by simp
qed


text \<open>
  Two frames whose keys are both +infinity: the comparator returns NaN for them
  (\<^verbatim>\<open>Infinity - Infinity\<close>), which the sort takes as equal, so they stay in input order
  and their paths are not compared.
\<close>

lemma infinite_keys_keep_input_order:
  "map pathOf (validTransformFrames E unnumberedFrames) = [''foo.png'', ''bar.png'']"
  by (simp add: unnumberedFrames_def eval_defs)


end
